theory Spec2Isabelle
  imports Complex_Main
begin

section \<open>Values of the program\<close>

text \<open>
  \<^verbatim>\<open>computeSales.py\<close> works on what \<^verbatim>\<open>json.load\<close> returns: \<^verbatim>\<open>None\<close>, booleans,
  unbounded integers, floats, strings, lists and dictionaries with string keys. The type
  of floats is the parameter \<open>'f\<close>; what Python does with a float is a field of
  \<open>float_ops\<close> below, so every theorem holds for any arithmetic of floats, IEEE 754
  binary64 with its rounding, infinities and NaN included. A dictionary is an association
  list read through \<open>map_of\<close>.
\<close>

datatype 'f json =
    JNull
  | JBool bool
  | JInt int
  | JFloat 'f
  | JStr string
  | JList "'f json list"
  | JObj "(string \<times> 'f json) list"

text \<open>
  The exceptions that the operations used by the program can raise. A call of \<^verbatim>\<open>print\<close> is
  taken to succeed and is modelled by the line it prints.
\<close>

datatype exn = TypeError | AttributeError | OverflowError

text \<open>
  A number in the sense of \<^verbatim>\<open>isinstance(v, (int, float))\<close>. \<^verbatim>\<open>bool\<close> is a subclass of
  \<^verbatim>\<open>int\<close> in Python (\<^verbatim>\<open>True == 1\<close>, \<^verbatim>\<open>False == 0\<close>), so a boolean passes that test and
  computes as the integer it equals.
\<close>

datatype 'f pynum = PInt int | PFloat 'f

text \<open>
  A dictionary key, up to Python's equality of keys: \<^verbatim>\<open>1\<close>, \<^verbatim>\<open>1.0\<close> and \<^verbatim>\<open>True\<close> are one
  key, a float that equals no integer is a key of its own, and lists and dictionaries
  are unhashable.
\<close>

datatype 'f key = KNone | KInt int | KFloat 'f | KStr string

type_synonym 'f price_map = "'f key \<rightharpoonup> 'f pynum"

text \<open>
  What \<^verbatim>\<open>format(x, ".2f")\<close> first makes of a float \<open>x\<close>: the sign and the digits of a finite
  \<open>x\<close> rounded to the decimals asked for, or the fact that \<open>x\<close> is an infinity or a NaN.
  \<open>Finite neg m\<close> with \<open>p\<close> decimals stands for \<open>m / 10^p\<close>, negated when \<open>neg\<close>.
\<close>

datatype decimal = Finite bool nat | Infinite bool | Not_a_number

record 'f float_ops =
  f_zero :: 'f
  f_add :: "'f \<Rightarrow> 'f \<Rightarrow> 'f"
  f_mul :: "'f \<Rightarrow> 'f \<Rightarrow> 'f"
  f_of_int :: "int \<Rightarrow> 'f option"
  f_lt0 :: "'f \<Rightarrow> bool"
  f_le0 :: "'f \<Rightarrow> bool"
  f_as_int :: "'f \<Rightarrow> int option"
  f_decimal :: "nat \<Rightarrow> 'f \<Rightarrow> decimal"
  str_other :: "'f json \<Rightarrow> string"

text \<open>
  The fields, in Python: \<open>f_zero\<close> is \<^verbatim>\<open>0.0\<close>; \<open>f_add\<close> and \<open>f_mul\<close> are \<^verbatim>\<open>+\<close> and \<^verbatim>\<open>*\<close> on
  two floats; \<open>f_of_int i\<close> is the float that an integer operand is converted to, \<open>None\<close> when
  the conversion raises \<^verbatim>\<open>OverflowError\<close>; \<open>f_lt0 x\<close> is \<^verbatim>\<open>x < 0\<close> and \<open>f_le0 x\<close> is \<^verbatim>\<open>x <= 0\<close>;
  \<open>f_as_int x\<close> is the integer that \<open>x\<close> equals, if there is one; \<open>f_decimal p x\<close> is the
  correctly rounded decimal of \<open>x\<close> with \<open>p\<close> digits after the point; \<open>str_other v\<close> is
  \<^verbatim>\<open>str(v)\<close> for a float, a list or a dictionary.
\<close>

subsection \<open>Operations of Python that the program uses\<close>

text \<open>\<^verbatim>\<open>for x in v\<close>: a list gives its elements, a string its characters, a dictionary its keys.\<close>

fun py_iter :: "'f json \<Rightarrow> exn + 'f json list" where
  "py_iter (JList xs) = Inr xs"
| "py_iter (JStr s) = Inr (map (\<lambda>c. JStr [c]) s)"
| "py_iter (JObj kvs) = Inr (map (\<lambda>kv. JStr (fst kv)) kvs)"
| "py_iter _ = Inl TypeError"

text \<open>
  \<^verbatim>\<open>v.get(k, d)\<close>: only a dictionary has the method. \<open>get_default kvs k d\<close> is what it
  returns on the dictionary with the items \<open>kvs\<close>.
\<close>

definition get_default :: "(string \<times> 'f json) list \<Rightarrow> string \<Rightarrow> 'f json \<Rightarrow> 'f json" where
  "get_default kvs k d = (case map_of kvs k of None \<Rightarrow> d | Some v \<Rightarrow> v)"

fun dict_get :: "'f json \<Rightarrow> string \<Rightarrow> 'f json \<Rightarrow> exn + 'f json" where
  "dict_get (JObj kvs) k d = Inr (get_default kvs k d)"
| "dict_get _ k d = Inl AttributeError"

text \<open>\<^verbatim>\<open>v is None\<close>.\<close>

fun is_None :: "'f json \<Rightarrow> bool" where
  "is_None JNull = True"
| "is_None _ = False"

text \<open>\<^verbatim>\<open>isinstance(v, (int, float))\<close>, with the number that \<open>v\<close> is.\<close>

fun as_num :: "'f json \<Rightarrow> 'f pynum option" where
  "as_num (JBool b) = Some (PInt (if b then 1 else 0))"
| "as_num (JInt i) = Some (PInt i)"
| "as_num (JFloat x) = Some (PFloat x)"
| "as_num _ = None"

fun num_lt0 :: "'f float_ops \<Rightarrow> 'f pynum \<Rightarrow> bool" where
  "num_lt0 ops (PInt i) = (i < 0)"
| "num_lt0 ops (PFloat x) = f_lt0 ops x"

fun num_le0 :: "'f float_ops \<Rightarrow> 'f pynum \<Rightarrow> bool" where
  "num_le0 ops (PInt i) = (i \<le> 0)"
| "num_le0 ops (PFloat x) = f_le0 ops x"

text \<open>Hashing a value to use it as a dictionary key: \<^verbatim>\<open>d[v] = ...\<close>, \<^verbatim>\<open>v in d\<close>.\<close>

fun key_of :: "'f float_ops \<Rightarrow> 'f json \<Rightarrow> exn + 'f key" where
  "key_of ops JNull = Inr KNone"
| "key_of ops (JBool b) = Inr (KInt (if b then 1 else 0))"
| "key_of ops (JInt i) = Inr (KInt i)"
| "key_of ops (JFloat x) = Inr (case f_as_int ops x of None \<Rightarrow> KFloat x | Some i \<Rightarrow> KInt i)"
| "key_of ops (JStr s) = Inr (KStr s)"
| "key_of ops (JList xs) = Inl TypeError"
| "key_of ops (JObj kvs) = Inl TypeError"

text \<open>The operand of a float addition or multiplication, as a float.\<close>

fun to_float :: "'f float_ops \<Rightarrow> 'f pynum \<Rightarrow> exn + 'f" where
  "to_float ops (PFloat x) = Inr x"
| "to_float ops (PInt i) = (case f_of_int ops i of None \<Rightarrow> Inl OverflowError | Some x \<Rightarrow> Inr x)"

text \<open>\<^verbatim>\<open>a * b\<close> on numbers: exact on two integers, on floats otherwise.\<close>

fun num_mul :: "'f float_ops \<Rightarrow> 'f pynum \<Rightarrow> 'f pynum \<Rightarrow> exn + 'f pynum" where
  "num_mul ops (PInt a) (PInt b) = Inr (PInt (a * b))"
| "num_mul ops a b =
     (case to_float ops a of Inl e \<Rightarrow> Inl e | Inr x \<Rightarrow>
        (case to_float ops b of Inl e \<Rightarrow> Inl e | Inr y \<Rightarrow> Inr (PFloat (f_mul ops x y))))"

text \<open>\<^verbatim>\<open>t + v\<close> where \<open>t\<close> is a float: the result is a float.\<close>

definition float_add :: "'f float_ops \<Rightarrow> 'f \<Rightarrow> 'f pynum \<Rightarrow> exn + 'f" where
  "float_add ops t v = (case to_float ops v of Inl e \<Rightarrow> Inl e | Inr y \<Rightarrow> Inr (f_add ops t y))"

text \<open>\<^verbatim>\<open>str(v)\<close>, as an f-string field renders a value.\<close>

definition digit :: "nat \<Rightarrow> char" where
  "digit d = ''0123456789'' ! d"

fun show_nat :: "nat \<Rightarrow> string" where
  "show_nat n = (if n < 10 then [digit n] else show_nat (n div 10) @ [digit (n mod 10)])"

declare show_nat.simps [simp del]

definition show_int :: "int \<Rightarrow> string" where
  "show_int i = (if i < 0 then ''-'' @ show_nat (nat (- i)) else show_nat (nat i))"

fun py_str :: "'f float_ops \<Rightarrow> 'f json \<Rightarrow> string" where
  "py_str ops (JStr s) = s"
| "py_str ops JNull = ''None''"
| "py_str ops (JBool b) = (if b then ''True'' else ''False'')"
| "py_str ops (JInt i) = show_int i"
| "py_str ops v = str_other ops v"

text \<open>
  \<^verbatim>\<open>format(x, ",.2f")\<close> and \<^verbatim>\<open>format(x, ".4f")\<close>: an optional minus sign, the integer part,
  grouped by thousands from the right when a comma is asked for, a point and the decimals,
  padded with zeros; \<^verbatim>\<open>inf\<close>, \<^verbatim>\<open>-inf\<close> and \<^verbatim>\<open>nan\<close> for a float that is not finite.
\<close>

fun group3 :: "string \<Rightarrow> string" where
  "group3 (a # b # c # d # rest) = a # b # c # CHR '','' # group3 (d # rest)"
| "group3 s = s"

definition thousands :: "string \<Rightarrow> string" where
  "thousands w = rev (group3 (rev w))"

fun py_fixed :: "bool \<Rightarrow> nat \<Rightarrow> decimal \<Rightarrow> string" where
  "py_fixed comma prec (Finite neg m) =
     (if neg then ''-'' else [])
     @ (if comma then thousands (show_nat (m div 10 ^ prec)) else show_nat (m div 10 ^ prec))
     @ (if prec = 0 then []
        else ''.'' @ replicate (prec - length (show_nat (m mod 10 ^ prec))) (CHR ''0'')
               @ show_nat (m mod 10 ^ prec))"
| "py_fixed comma prec (Infinite neg) = (if neg then ''-inf'' else ''inf'')"
| "py_fixed comma prec Not_a_number = ''nan''"

definition format_f :: "'f float_ops \<Rightarrow> bool \<Rightarrow> nat \<Rightarrow> 'f \<Rightarrow> string" where
  "format_f ops comma prec x = py_fixed comma prec (f_decimal ops prec x)"

definition sq :: string where
  "sq = [CHR 0x27]"

text \<open>
  A \<^verbatim>\<open>for\<close> loop whose body updates the local state and may raise: the first exception
  ends the loop.
\<close>

fun for_each :: "('a \<Rightarrow> 's \<Rightarrow> exn + 's) \<Rightarrow> 'a list \<Rightarrow> 's \<Rightarrow> exn + 's" where
  "for_each body [] st = Inr st"
| "for_each body (x # xs) st =
     (case body x st of Inl e \<Rightarrow> Inl e | Inr st' \<Rightarrow> for_each body xs st')"

section \<open>\<^verbatim>\<open>build_price_map\<close>\<close>

text \<open>The two warnings of the loop, as the f-strings build them.\<close>

definition invalid_entry_msg :: "'f float_ops \<Rightarrow> 'f json \<Rightarrow> string" where
  "invalid_entry_msg ops item = ''WARNING: Skipping invalid catalogue entry: '' @ py_str ops item"

definition invalid_price_msg :: "'f float_ops \<Rightarrow> 'f json \<Rightarrow> 'f json \<Rightarrow> string" where
  "invalid_price_msg ops title price =
     ''WARNING: Invalid price for '' @ sq @ py_str ops title @ sq @ '': '' @ py_str ops price
       @ ''. Skipping.''"

text \<open>
  The body of the loop. Its state is the dictionary \<^verbatim>\<open>price_map\<close> and the lines printed
  so far; \<^verbatim>\<open>continue\<close> returns the state with one more line.
\<close>

definition catalogue_step ::
  "'f float_ops \<Rightarrow> 'f json \<Rightarrow> 'f price_map \<times> string list \<Rightarrow> exn + ('f price_map \<times> string list)"
where
  "catalogue_step ops item st =
     (case st of (price_map, out) \<Rightarrow>
       (case dict_get item ''title'' JNull of Inl e \<Rightarrow> Inl e | Inr title \<Rightarrow>
       (case dict_get item ''price'' JNull of Inl e \<Rightarrow> Inl e | Inr price \<Rightarrow>
          if is_None title \<or> is_None price
          then Inr (price_map, out @ [invalid_entry_msg ops item])
          else (case as_num price of
                  None \<Rightarrow> Inr (price_map, out @ [invalid_price_msg ops title price])
                | Some p \<Rightarrow>
                    if num_lt0 ops p
                    then Inr (price_map, out @ [invalid_price_msg ops title price])
                    else (case key_of ops title of Inl e \<Rightarrow> Inl e
                          | Inr k \<Rightarrow> Inr (price_map(k \<mapsto> p), out))))))"

text \<open>The function returns \<^verbatim>\<open>price_map\<close>; the model pairs it with the lines printed.\<close>

definition build_price_map ::
  "'f float_ops \<Rightarrow> 'f json \<Rightarrow> exn + ('f price_map \<times> string list)"
where
  "build_price_map ops catalogue =
     (case py_iter catalogue of Inl e \<Rightarrow> Inl e
      | Inr items \<Rightarrow> for_each (catalogue_step ops) items (Map.empty, []))"

section \<open>\<^verbatim>\<open>compute_sales\<close>\<close>

record 'f sale_result =
  sale_id :: "'f json"
  customer :: "'f json"
  total :: 'f

definition not_found_msg :: "'f float_ops \<Rightarrow> 'f json \<Rightarrow> 'f json \<Rightarrow> string" where
  "not_found_msg ops product sid =
     ''ERROR: Product '' @ sq @ py_str ops product @ sq @ '' not found in catalogue (Sale: ''
       @ py_str ops sid @ ''). Skipping.''"

definition invalid_quantity_msg ::
  "'f float_ops \<Rightarrow> 'f json \<Rightarrow> 'f json \<Rightarrow> 'f json \<Rightarrow> string"
where
  "invalid_quantity_msg ops product sid quantity =
     ''WARNING: Invalid quantity for '' @ sq @ py_str ops product @ sq @ '' (Sale: ''
       @ py_str ops sid @ ''): '' @ py_str ops quantity @ ''. Skipping.''"

text \<open>
  The body of the inner loop, for the sale \<open>sid\<close>. Its state is \<^verbatim>\<open>sale_total\<close> and the
  lines printed so far.
\<close>

definition item_step ::
  "'f float_ops \<Rightarrow> 'f price_map \<Rightarrow> 'f json \<Rightarrow> 'f json \<Rightarrow> 'f \<times> string list
     \<Rightarrow> exn + ('f \<times> string list)"
where
  "item_step ops price_map sid item st =
     (case st of (sale_total, out) \<Rightarrow>
       (case dict_get item ''Product'' JNull of Inl e \<Rightarrow> Inl e | Inr product \<Rightarrow>
       (case dict_get item ''Quantity'' (JInt 0) of Inl e \<Rightarrow> Inl e | Inr quantity \<Rightarrow>
       (case key_of ops product of Inl e \<Rightarrow> Inl e | Inr k \<Rightarrow>
       (case price_map k of
          None \<Rightarrow> Inr (sale_total, out @ [not_found_msg ops product sid])
        | Some price \<Rightarrow>
           (case as_num quantity of
              None \<Rightarrow> Inr (sale_total, out @ [invalid_quantity_msg ops product sid quantity])
            | Some q \<Rightarrow>
                if num_le0 ops q
                then Inr (sale_total, out @ [invalid_quantity_msg ops product sid quantity])
                else (case num_mul ops price q of Inl e \<Rightarrow> Inl e | Inr v \<Rightarrow>
                     (case float_add ops sale_total v of Inl e \<Rightarrow> Inl e
                      | Inr t \<Rightarrow> Inr (t, out)))))))))"

text \<open>
  The body of the outer loop. Its state is \<^verbatim>\<open>results\<close> and \<^verbatim>\<open>grand_total\<close>, and the
  lines printed so far.
\<close>

definition sale_step ::
  "'f float_ops \<Rightarrow> 'f price_map \<Rightarrow> 'f json \<Rightarrow> ('f sale_result list \<times> 'f) \<times> string list
     \<Rightarrow> exn + (('f sale_result list \<times> 'f) \<times> string list)"
where
  "sale_step ops price_map sale st =
     (case st of ((results, grand_total), out) \<Rightarrow>
       (case dict_get sale ''SALE_ID'' (JStr ''UNKNOWN'') of Inl e \<Rightarrow> Inl e | Inr sid \<Rightarrow>
       (case dict_get sale ''Customer'' (JStr ''UNKNOWN'') of Inl e \<Rightarrow> Inl e | Inr cust \<Rightarrow>
       (case dict_get sale ''Items'' (JList []) of Inl e \<Rightarrow> Inl e | Inr items \<Rightarrow>
       (case py_iter items of Inl e \<Rightarrow> Inl e | Inr its \<Rightarrow>
       (case for_each (item_step ops price_map sid) its (f_zero ops, out) of
          Inl e \<Rightarrow> Inl e
        | Inr (sale_total, out') \<Rightarrow>
            Inr ((results @ [\<lparr>sale_id = sid, customer = cust, total = sale_total\<rparr>],
                  f_add ops grand_total sale_total), out')))))))"

text \<open>
  The function returns the pair \<^verbatim>\<open>(results, grand_total)\<close>; the model pairs it with the
  lines printed.
\<close>

definition compute_sales ::
  "'f float_ops \<Rightarrow> 'f json \<Rightarrow> 'f price_map
     \<Rightarrow> exn + (('f sale_result list \<times> 'f) \<times> string list)"
where
  "compute_sales ops sales price_map =
     (case py_iter sales of Inl e \<Rightarrow> Inl e
      | Inr ss \<Rightarrow> for_each (sale_step ops price_map) ss (([], f_zero ops), []))"

section \<open>\<^verbatim>\<open>format_output\<close>\<close>

definition newline :: string where
  "newline = [CHR 0x0A]"

text \<open>\<^verbatim>\<open>sep.join(lines)\<close>.\<close>

fun join :: "string \<Rightarrow> string list \<Rightarrow> string" where
  "join sep [] = []"
| "join sep [x] = x"
| "join sep (x # y # ys) = x @ sep @ join sep (y # ys)"

text \<open>The body of the loop over \<^verbatim>\<open>results\<close>: four calls of \<^verbatim>\<open>lines.append\<close>.\<close>

definition append_result ::
  "'f float_ops \<Rightarrow> string list \<Rightarrow> 'f sale_result \<Rightarrow> string list"
where
  "append_result ops lines result =
     (let lines = lines @ [''Sale ID  : '' @ py_str ops (sale_id result)];
          lines = lines @ [''Customer : '' @ py_str ops (customer result)];
          lines = lines @ [''Total    : $'' @ format_f ops True 2 (total result)];
          lines = lines @ [replicate 50 (CHR ''-'')]
      in lines)"

text \<open>The list \<^verbatim>\<open>lines\<close> when the function returns, and the string it returns.\<close>

definition report_lines ::
  "'f float_ops \<Rightarrow> 'f sale_result list \<Rightarrow> 'f \<Rightarrow> 'f \<Rightarrow> string list"
where
  "report_lines ops results grand_total elapsed_time =
     (let lines = [];
          lines = lines @ [replicate 50 (CHR ''='')];
          lines = lines @ [''           SALES RESULTS REPORT''];
          lines = lines @ [replicate 50 (CHR ''='')];
          lines = foldl (append_result ops) lines results;
          lines = lines @ [''GRAND TOTAL: $'' @ format_f ops True 2 grand_total];
          lines = lines @ [replicate 50 (CHR ''='')];
          lines = lines @ [''Execution time: '' @ format_f ops False 4 elapsed_time @ '' seconds'']
      in lines)"

definition format_output :: "'f float_ops \<Rightarrow> 'f sale_result list \<Rightarrow> 'f \<Rightarrow> 'f \<Rightarrow> string" where
  "format_output ops results grand_total elapsed_time =
     join newline (report_lines ops results grand_total elapsed_time)"

section \<open>Arithmetics to evaluate the program with\<close>

text \<open>
  The examples below run the program on exact rational numbers. On an input whose
  intermediate results are all representable in binary64 (small integers, halves,
  quarters), Python computes the same values. An integer converts to a float when its
  magnitude is below \<open>2^1024 - 2^970\<close>, the first integer that rounds beyond the largest
  binary64 number. The decimal of a number is its magnitude rounded half-to-even, as
  \<^verbatim>\<open>format\<close> rounds the exact value of a float. None of the examples prints a float, a list
  or a dictionary through \<^verbatim>\<open>str\<close>, and \<open>str_other\<close> is a placeholder here.
\<close>

definition round_half_even :: "rat \<Rightarrow> int" where
  "round_half_even q =
     (let n = \<lfloor>q\<rfloor>; r = q - of_int n
      in if r < 1 / 2 then n else if 1 / 2 < r then n + 1 else if even n then n else n + 1)"

definition exact_ops :: "rat float_ops" where
  "exact_ops =
     \<lparr>f_zero = 0,
      f_add = (\<lambda>x y. x + y),
      f_mul = (\<lambda>x y. x * y),
      f_of_int = (\<lambda>i. if \<bar>i\<bar> < 2 ^ 1024 - 2 ^ 970 then Some (of_int i) else None),
      f_lt0 = (\<lambda>x. x < 0),
      f_le0 = (\<lambda>x. x \<le> 0),
      f_as_int = (\<lambda>x. if of_int \<lfloor>x\<rfloor> = x then Some \<lfloor>x\<rfloor> else None),
      f_decimal = (\<lambda>prec x. Finite (x < 0) (nat (round_half_even (\<bar>x\<bar> * 10 ^ prec)))),
      str_other = (\<lambda>v. ''<object>'')\<rparr>"

text \<open>
  The same numbers with the two infinities and NaN, which \<^verbatim>\<open>json.load\<close> reads from
  \<^verbatim>\<open>Infinity\<close>, \<^verbatim>\<open>-Infinity\<close> and \<^verbatim>\<open>NaN\<close> (and from a literal like \<^verbatim>\<open>1e999\<close>). \<open>Finf True\<close> is
  the negative infinity.
\<close>

datatype xfloat = Fnum rat | Finf bool | Fnan

fun xf_add :: "xfloat \<Rightarrow> xfloat \<Rightarrow> xfloat" where
  "xf_add (Fnum a) (Fnum b) = Fnum (a + b)"
| "xf_add (Fnum a) (Finf s) = Finf s"
| "xf_add (Finf s) (Fnum b) = Finf s"
| "xf_add (Finf s) (Finf s') = (if s = s' then Finf s else Fnan)"
| "xf_add Fnan y = Fnan"
| "xf_add x Fnan = Fnan"

fun xf_mul :: "xfloat \<Rightarrow> xfloat \<Rightarrow> xfloat" where
  "xf_mul (Fnum a) (Fnum b) = Fnum (a * b)"
| "xf_mul (Fnum a) (Finf s) = (if a = 0 then Fnan else Finf (s \<noteq> (a < 0)))"
| "xf_mul (Finf s) (Fnum b) = (if b = 0 then Fnan else Finf (s \<noteq> (b < 0)))"
| "xf_mul (Finf s) (Finf s') = Finf (s \<noteq> s')"
| "xf_mul Fnan y = Fnan"
| "xf_mul x Fnan = Fnan"

fun xf_lt0 :: "xfloat \<Rightarrow> bool" where
  "xf_lt0 (Fnum a) = (a < 0)"
| "xf_lt0 (Finf s) = s"
| "xf_lt0 Fnan = False"

fun xf_le0 :: "xfloat \<Rightarrow> bool" where
  "xf_le0 (Fnum a) = (a \<le> 0)"
| "xf_le0 (Finf s) = s"
| "xf_le0 Fnan = False"

fun xf_as_int :: "xfloat \<Rightarrow> int option" where
  "xf_as_int (Fnum a) = (if of_int \<lfloor>a\<rfloor> = a then Some \<lfloor>a\<rfloor> else None)"
| "xf_as_int x = None"

fun xf_decimal :: "nat \<Rightarrow> xfloat \<Rightarrow> decimal" where
  "xf_decimal prec (Fnum a) = Finite (a < 0) (nat (round_half_even (\<bar>a\<bar> * 10 ^ prec)))"
| "xf_decimal prec (Finf s) = Infinite s"
| "xf_decimal prec Fnan = Not_a_number"

definition extended_ops :: "xfloat float_ops" where
  "extended_ops =
     \<lparr>f_zero = Fnum 0,
      f_add = xf_add,
      f_mul = xf_mul,
      f_of_int = (\<lambda>i. if \<bar>i\<bar> < 2 ^ 1024 - 2 ^ 970 then Some (Fnum (of_int i)) else None),
      f_lt0 = xf_lt0,
      f_le0 = xf_le0,
      f_as_int = xf_as_int,
      f_decimal = xf_decimal,
      str_other = (\<lambda>v. ''<object>'')\<rparr>"

section \<open>The vocabulary of the specification\<close>

text \<open>
  The title and the price of a catalogue entry, as \<^verbatim>\<open>item.get\<close> reads them, and the
  specification's valid entry: both fields present, the price a number and not negative.
\<close>

definition entry_title :: "(string \<times> 'f json) list \<Rightarrow> 'f json" where
  "entry_title fs = get_default fs ''title'' JNull"

definition entry_price :: "(string \<times> 'f json) list \<Rightarrow> 'f json" where
  "entry_price fs = get_default fs ''price'' JNull"

definition valid_entry :: "'f float_ops \<Rightarrow> (string \<times> 'f json) list \<Rightarrow> bool" where
  "valid_entry ops fs =
     (\<not> is_None (entry_title fs) \<and>
      (case as_num (entry_price fs) of None \<Rightarrow> False | Some p \<Rightarrow> \<not> num_lt0 ops p))"

text \<open>A value that can be a dictionary key: anything but a list or a dictionary.\<close>

fun hashable :: "'f json \<Rightarrow> bool" where
  "hashable (JList xs) = False"
| "hashable (JObj kvs) = False"
| "hashable _ = True"

text \<open>The key and the price of a valid entry, and those of a catalogue in input order.\<close>

definition entry_pair ::
  "'f float_ops \<Rightarrow> (string \<times> 'f json) list \<Rightarrow> ('f key \<times> 'f pynum) option"
where
  "entry_pair ops fs =
     (if valid_entry ops fs
      then (case key_of ops (entry_title fs) of Inl e \<Rightarrow> None
            | Inr k \<Rightarrow> map_option (Pair k) (as_num (entry_price fs)))
      else None)"

fun valid_pairs ::
  "'f float_ops \<Rightarrow> (string \<times> 'f json) list list \<Rightarrow> ('f key \<times> 'f pynum) list"
where
  "valid_pairs ops [] = []"
| "valid_pairs ops (fs # es) =
     (case entry_pair ops fs of None \<Rightarrow> valid_pairs ops es
      | Some kp \<Rightarrow> kp # valid_pairs ops es)"

text \<open>
  The product and the quantity of a sale item and the items of a sale, as \<^verbatim>\<open>get\<close> reads
  them, and the entry of \<^verbatim>\<open>results\<close> for a sale whose total is \<open>t\<close>.
\<close>

definition item_product :: "(string \<times> 'f json) list \<Rightarrow> 'f json" where
  "item_product fs = get_default fs ''Product'' JNull"

definition item_quantity :: "(string \<times> 'f json) list \<Rightarrow> 'f json" where
  "item_quantity fs = get_default fs ''Quantity'' (JInt 0)"

definition sale_items :: "(string \<times> 'f json) list \<Rightarrow> 'f json" where
  "sale_items fs = get_default fs ''Items'' (JList [])"

definition result_of :: "(string \<times> 'f json) list \<Rightarrow> 'f \<Rightarrow> 'f sale_result" where
  "result_of fs t =
     \<lparr>sale_id = get_default fs ''SALE_ID'' (JStr ''UNKNOWN''),
      customer = get_default fs ''Customer'' (JStr ''UNKNOWN''),
      total = t\<rparr>"

text \<open>
  The product \<^verbatim>\<open>price * quantity\<close> can be added to a float: no integer operand is too
  large to be converted.
\<close>

definition in_float_range :: "'f float_ops \<Rightarrow> 'f pynum \<Rightarrow> 'f pynum \<Rightarrow> bool" where
  "in_float_range ops p q =
     (case num_mul ops p q of Inl e \<Rightarrow> False
      | Inr v \<Rightarrow> (case to_float ops v of Inl e \<Rightarrow> False | Inr x \<Rightarrow> True))"

text \<open>The four lines that \<^verbatim>\<open>format_output\<close> appends for one result.\<close>

definition result_block :: "'f float_ops \<Rightarrow> 'f sale_result \<Rightarrow> string list" where
  "result_block ops r =
     [''Sale ID  : '' @ py_str ops (sale_id r),
      ''Customer : '' @ py_str ops (customer r),
      ''Total    : $'' @ format_f ops True 2 (total r),
      replicate 50 (CHR ''-'')]"

text \<open>
  A line is centred in a width when the blanks before its text and the room after it,
  up to the width, differ by one at most.
\<close>

definition lstrip :: "string \<Rightarrow> string" where
  "lstrip s = dropWhile (\<lambda>c. c = CHR '' '') s"

definition rstrip :: "string \<Rightarrow> string" where
  "rstrip s = rev (lstrip (rev s))"

definition left_margin :: "string \<Rightarrow> nat" where
  "left_margin s = length s - length (lstrip s)"

definition right_margin :: "nat \<Rightarrow> string \<Rightarrow> nat" where
  "right_margin w s = w - length (rstrip s)"

definition centered :: "nat \<Rightarrow> string \<Rightarrow> bool" where
  "centered w s =
     (length (rstrip s) \<le> w \<and>
      (left_margin s = right_margin w s \<or> left_margin s = right_margin w s + 1
        \<or> left_margin s + 1 = right_margin w s))"

text \<open>
  A loop body that only appends to the lines printed: run from any output \<open>out\<close>, it does
  what it does from the empty output, with \<open>out\<close> in front.
\<close>

definition appends_output :: "('a \<Rightarrow> 's \<times> string list \<Rightarrow> exn + 's \<times> string list) \<Rightarrow> bool" where
  "appends_output body =
     (\<forall>x s out. body x (s, out) = map_sum id (\<lambda>(s', l). (s', out @ l)) (body x (s, [])))"

text \<open>
  Two runs of a loop or of the program that differ by one printed line: the first raises
  what the second raises, or returns what the second returns and prints the same lines with
  the line \<open>m\<close> somewhere among them.
\<close>

definition inserts_line ::
  "string \<Rightarrow> exn + 's \<times> string list \<Rightarrow> exn + 's \<times> string list \<Rightarrow> bool"
where
  "inserts_line m with without =
     (case without of
        Inl e \<Rightarrow> with = Inl e
      | Inr (s, l) \<Rightarrow> \<exists>l1 l2. l = l1 @ l2 \<and> with = Inr (s, l1 @ [m] @ l2))"

text \<open>
  The shape of a number printed with thousands separators: read from the right, every
  fourth character is a comma and the others are decimal digits, and a comma neither begins
  nor ends the text. \<open>decimal_value\<close> is the number that a text of digits denotes.
\<close>

definition is_digit :: "char \<Rightarrow> bool" where
  "is_digit c = (c \<in> set ''0123456789'')"

definition grouped_by_thousands :: "string \<Rightarrow> bool" where
  "grouped_by_thousands w =
     (w \<noteq> [] \<and> length w mod 4 \<noteq> 0 \<and>
      (\<forall>i<length w. if i mod 4 = 3 then rev w ! i = CHR '','' else is_digit (rev w ! i)))"

definition decimal_value :: "string \<Rightarrow> nat" where
  "decimal_value w = foldl (\<lambda>a c. 10 * a + (of_char c - of_char (CHR ''0''))) 0 w"

section \<open>Loops\<close>


lemma for_each_append:
  "for_each body (xs @ ys) st =
     (case for_each body xs st of Inl e \<Rightarrow> Inl e | Inr st' \<Rightarrow> for_each body ys st')"
  by (induction xs arbitrary: st) (auto split: sum.splits)

lemma for_each_appends_output:
  assumes "appends_output body"
  shows "for_each body xs (s, out) = map_sum id (\<lambda>(s', l). (s', out @ l)) (for_each body xs (s, []))"
proof (induction xs arbitrary: s out)
  case Nil
  show ?case by simp
next
  case (Cons x xs)
  have step: "body x (s, out) = map_sum id (\<lambda>(s', l). (s', out @ l)) (body x (s, []))"
    using assms unfolding appends_output_def by blast
  show ?case
  proof (cases "body x (s, [])")
    case (Inl e)
    then show ?thesis using step by simp
  next
    case (Inr r)
    obtain s1 l1 where r: "r = (s1, l1)" by (cases r)
    have a: "for_each body (x # xs) (s, out) = for_each body xs (s1, out @ l1)"
      using step Inr r by simp
    have b: "for_each body (x # xs) (s, []) = for_each body xs (s1, l1)"
      using Inr r by simp
    have ih1: "for_each body xs (s1, out @ l1)
        = map_sum id (\<lambda>(s', l). (s', (out @ l1) @ l)) (for_each body xs (s1, []))"
      by (rule Cons.IH)
    have ih2: "for_each body xs (s1, l1)
        = map_sum id (\<lambda>(s', l). (s', l1 @ l)) (for_each body xs (s1, []))"
      by (rule Cons.IH)
    show ?thesis
      unfolding a b ih1 ih2 by (cases "for_each body xs (s1, [])") auto
  qed
qed




lemma item_step_appends_output: "appends_output (item_step ops pm sid)"
  unfolding appends_output_def
  by (auto simp: item_step_def split: sum.splits option.splits)

lemma sale_step_appends_output: "appends_output (sale_step ops pm)"
  unfolding appends_output_def
proof (intro allI)
  fix sale :: "'a json" and s :: "'a sale_result list \<times> 'a" and out :: "string list"
  obtain rs g where s: "s = (rs, g)" by (cases s)
  show "sale_step ops pm sale (s, out)
      = map_sum id (\<lambda>(s', l). (s', out @ l)) (sale_step ops pm sale (s, []))"
  proof (cases "\<exists>fs its. sale = JObj fs \<and> py_iter (get_default fs ''Items'' (JList [])) = Inr its")
    case False
    then show ?thesis
      unfolding s sale_step_def by (cases sale) (auto split: sum.splits)
  next
    case True
    then obtain fs its where sale: "sale = JObj fs"
      and its: "py_iter (get_default fs ''Items'' (JList [])) = Inr its" by blast
    let ?sid = "get_default fs ''SALE_ID'' (JStr ''UNKNOWN'')"
    have "for_each (item_step ops pm ?sid) its (f_zero ops, out)
        = map_sum id (\<lambda>(s', l). (s', out @ l)) (for_each (item_step ops pm ?sid) its (f_zero ops, []))"
      by (rule for_each_appends_output[OF item_step_appends_output])
    then show ?thesis
      unfolding s sale sale_step_def using its
      by (cases "for_each (item_step ops pm ?sid) its (f_zero ops, [])") auto
  qed
qed

lemma inserts_line_Inl: "inserts_line m (Inl e) (Inl e)"
  by (simp add: inserts_line_def)

lemma inserts_line_Inr: "inserts_line m (Inr (s, l1 @ m # l2)) (Inr (s, l1 @ l2))"
  unfolding inserts_line_def by auto

lemma for_each_from:
  assumes "appends_output body"
  shows "for_each body xs (s, out) =
     (case for_each body xs (s, []) of Inl e \<Rightarrow> Inl e | Inr (s', l) \<Rightarrow> Inr (s', out @ l))"
  unfolding for_each_appends_output[OF assms, of xs s out]
  by (cases "for_each body xs (s, [])") auto

lemma for_each_skip_line:
  assumes w: "appends_output body"
    and skip: "\<And>s out. body x (s, out) = Inr (s, out @ [m])"
  shows "inserts_line m (for_each body (pre @ x # post) st) (for_each body (pre @ post) st)"
proof (cases "for_each body pre st")
  case (Inl e)
  then show ?thesis by (simp add: for_each_append inserts_line_Inl)
next
  case (Inr r)
  obtain s1 l1 where r: "r = (s1, l1)" by (cases r)
  have a: "for_each body (pre @ x # post) st = for_each body post (s1, l1 @ [m])"
    using Inr r skip[of s1 l1] by (simp add: for_each_append)
  have b: "for_each body (pre @ post) st = for_each body post (s1, l1)"
    using Inr r by (simp add: for_each_append)
  show ?thesis
  proof (cases "for_each body post (s1, [])")
    case (Inl e)
    show ?thesis
      unfolding a b for_each_from[OF w, of post s1 "l1 @ [m]"] for_each_from[OF w, of post s1 l1] Inl
      by (simp add: inserts_line_Inl)
  next
    case (Inr r2)
    obtain s2 l2 where r2: "r2 = (s2, l2)" by (cases r2)
    show ?thesis
      unfolding a b for_each_from[OF w, of post s1 "l1 @ [m]"] for_each_from[OF w, of post s1 l1]
        Inr r2
      using inserts_line_Inr[of m s2 l1 l2] by simp
  qed
qed

lemma for_each_replace_line:
  assumes w: "appends_output body"
    and ab: "\<And>st. inserts_line m (body a st) (body b st)"
  shows "inserts_line m (for_each body (pre @ a # post) st) (for_each body (pre @ b # post) st)"
proof (cases "for_each body pre st")
  case (Inl e)
  then show ?thesis by (simp add: for_each_append inserts_line_Inl)
next
  case (Inr r)
  have a: "for_each body (pre @ a # post) st
      = (case body a r of Inl e \<Rightarrow> Inl e | Inr st' \<Rightarrow> for_each body post st')"
    using Inr by (simp add: for_each_append)
  have b: "for_each body (pre @ b # post) st
      = (case body b r of Inl e \<Rightarrow> Inl e | Inr st' \<Rightarrow> for_each body post st')"
    using Inr by (simp add: for_each_append)
  show ?thesis
  proof (cases "body b r")
    case (Inl e)
    then have "body a r = Inl e" using ab[of r] by (simp add: inserts_line_def)
    then show ?thesis unfolding a b Inl by (simp add: inserts_line_Inl)
  next
    case (Inr rb)
    obtain s2 l where rb: "rb = (s2, l)" by (cases rb)
    from ab[of r] Inr rb obtain la lb where l: "l = la @ lb"
      and ra: "body a r = Inr (s2, la @ [m] @ lb)"
      by (auto simp: inserts_line_def)
    show ?thesis
    proof (cases "for_each body post (s2, [])")
      case (Inl e)
      show ?thesis
        unfolding a b Inr rb ra l
        using for_each_from[OF w, of post s2 "la @ [m] @ lb"] for_each_from[OF w, of post s2 "la @ lb"]
          Inl
        by (simp add: inserts_line_Inl)
    next
      case (Inr r3)
      obtain s3 l3 where r3: "r3 = (s3, l3)" by (cases r3)
      have x: "for_each body post (s2, la @ [m] @ lb) = Inr (s3, la @ m # (lb @ l3))"
        using for_each_from[OF w, of post s2 "la @ [m] @ lb"] Inr r3 by simp
      have y: "for_each body post (s2, la @ lb) = Inr (s3, la @ (lb @ l3))"
        using for_each_from[OF w, of post s2 "la @ lb"] Inr r3 by simp
      show ?thesis
        unfolding a b \<open>body b r = Inr rb\<close> rb ra l
        using inserts_line_Inr[of m s3 la "lb @ l3"] x y by simp
    qed
  qed
qed

section \<open>The price map, in closed form\<close>

lemma key_of_hashable: "hashable v \<Longrightarrow> \<exists>k. key_of ops v = Inr k"
  by (cases v) auto

lemma is_None_as_num: "is_None v \<Longrightarrow> as_num v = None"
  by (cases v) auto

lemma catalogue_step_Inr:
  assumes "catalogue_step ops (JObj fs) (pm, out) = Inr (pm', out')"
  shows "pm' = (case entry_pair ops fs of None \<Rightarrow> pm | Some (k, p) \<Rightarrow> pm(k \<mapsto> p))"
  using assms
  by (auto simp: catalogue_step_def entry_pair_def valid_entry_def entry_title_def entry_price_def
      is_None_as_num split: sum.splits option.splits if_splits)

lemma catalogue_step_total:
  assumes "valid_entry ops fs \<longrightarrow> hashable (entry_title fs)"
  shows "\<exists>pm' out'. catalogue_step ops (JObj fs) (pm, out) = Inr (pm', out')"
  using assms key_of_hashable[of "entry_title fs" ops]
  by (auto simp: catalogue_step_def valid_entry_def entry_title_def entry_price_def
      split: sum.splits option.splits if_splits)

lemma build_loop_Inr:
  "for_each (catalogue_step ops) (map JObj es) (pm0, out0) = Inr (pm, out) \<Longrightarrow>
     pm = pm0 ++ map_of (rev (valid_pairs ops es))"
proof (induction es arbitrary: pm0 out0)
  case Nil
  then show ?case by simp
next
  case (Cons fs es)
  from Cons.prems obtain pm1 out1 where
    step: "catalogue_step ops (JObj fs) (pm0, out0) = Inr (pm1, out1)" and
    rest: "for_each (catalogue_step ops) (map JObj es) (pm1, out1) = Inr (pm, out)"
    by (auto split: sum.splits)
  have pm: "pm = pm1 ++ map_of (rev (valid_pairs ops es))"
    using Cons.IH[OF rest] .
  show ?case
  proof (cases "entry_pair ops fs")
    case None
    then show ?thesis
      using catalogue_step_Inr[OF step] pm by simp
  next
    case (Some kp)
    obtain k p where kp: "kp = (k, p)" by (cases kp)
    have "pm1 = pm0(k \<mapsto> p)"
      using catalogue_step_Inr[OF step] Some kp by simp
    moreover have "pm0(k \<mapsto> p) ++ map_of (rev (valid_pairs ops es))
        = pm0 ++ map_of (rev ((k, p) # valid_pairs ops es))"
      by (rule ext) (simp add: map_add_def split: option.splits)
    ultimately show ?thesis
      using pm Some kp by simp
  qed
qed

lemma build_price_map_Inr:
  "build_price_map ops (JList (map JObj es)) = Inr (pm, out) \<Longrightarrow>
     pm = map_of (rev (valid_pairs ops es))"
  using build_loop_Inr[of ops es Map.empty "[]" pm out]
  by (simp add: build_price_map_def)

lemma build_loop_total:
  "\<forall>fs\<in>set es. valid_entry ops fs \<longrightarrow> hashable (entry_title fs) \<Longrightarrow>
     \<exists>pm out. for_each (catalogue_step ops) (map JObj es) (pm0, out0) = Inr (pm, out)"
proof (induction es arbitrary: pm0 out0)
  case Nil
  then show ?case by simp
next
  case (Cons fs es)
  then obtain pm1 out1 where "catalogue_step ops (JObj fs) (pm0, out0) = Inr (pm1, out1)"
    using catalogue_step_total[of ops fs pm0 out0] by auto
  then show ?case using Cons by auto
qed

lemma set_valid_pairs:
  "set (valid_pairs ops es) =
     {(k, p). \<exists>fs\<in>set es. valid_entry ops fs \<and> key_of ops (entry_title fs) = Inr k
               \<and> as_num (entry_price fs) = Some p}"
  by (induction es) (auto simp: entry_pair_def split: if_splits sum.splits option.splits)

lemma valid_pairs_append: "valid_pairs ops (xs @ ys) = valid_pairs ops xs @ valid_pairs ops ys"
  by (induction xs) (auto split: option.splits)

section \<open>The sales, step by step\<close>

lemma item_step_unknown:
  assumes "key_of ops (item_product fs) = Inr k" and "pm k = None"
  shows "item_step ops pm sid (JObj fs) (t, out)
       = Inr (t, out @ [not_found_msg ops (item_product fs) sid])"
  using assms by (simp add: item_step_def item_product_def)

lemma item_step_bad_quantity:
  assumes "key_of ops (item_product fs) = Inr k" and "pm k = Some price"
    and "case as_num (item_quantity fs) of None \<Rightarrow> True | Some q \<Rightarrow> num_le0 ops q"
  shows "item_step ops pm sid (JObj fs) (t, out)
       = Inr (t, out @ [invalid_quantity_msg ops (item_product fs) sid (item_quantity fs)])"
  using assms by (simp add: item_step_def item_product_def item_quantity_def split: option.splits)

lemma item_step_counted:
  assumes "key_of ops (item_product fs) = Inr k" and "pm k = Some price"
    and "as_num (item_quantity fs) = Some q" and "\<not> num_le0 ops q"
  shows "item_step ops pm sid (JObj fs) (t, out)
       = (case num_mul ops price q of Inl e \<Rightarrow> Inl e
          | Inr v \<Rightarrow> (case float_add ops t v of Inl e \<Rightarrow> Inl e | Inr t' \<Rightarrow> Inr (t', out)))"
  using assms by (simp add: item_step_def item_product_def item_quantity_def)

lemma sale_step_Inr:
  assumes "sale_step ops pm sale ((rs, g), out) = Inr ((rs', g'), out')"
  shows "\<exists>fs t. sale = JObj fs \<and> rs' = rs @ [result_of fs t] \<and> g' = f_add ops g t"
proof (cases sale)
  case (JObj fs)
  then show ?thesis
    using assms by (auto simp: sale_step_def result_of_def split: sum.splits)
qed (use assms in \<open>auto simp: sale_step_def\<close>)

lemma sales_loop_Inr:
  "for_each (sale_step ops pm) sales ((rs, g), out) = Inr ((rs', g'), out') \<Longrightarrow>
     \<exists>fss ts. sales = map JObj fss \<and> length ts = length fss \<and>
        rs' = rs @ map2 result_of fss ts \<and> g' = foldl (f_add ops) g ts"
proof (induction sales arbitrary: rs g out)
  case Nil
  then show ?case by simp
next
  case (Cons sale sales)
  from Cons.prems obtain rs1 g1 out1 where
    step: "sale_step ops pm sale ((rs, g), out) = Inr ((rs1, g1), out1)" and
    rest: "for_each (sale_step ops pm) sales ((rs1, g1), out1) = Inr ((rs', g'), out')"
    by (auto split: sum.splits)
  from sale_step_Inr[OF step] obtain fs t where
    s: "sale = JObj fs" "rs1 = rs @ [result_of fs t]" "g1 = f_add ops g t" by blast
  from Cons.IH[OF rest] obtain fss ts where
    r: "sales = map JObj fss" "length ts = length fss"
       "rs' = rs1 @ map2 result_of fss ts" "g' = foldl (f_add ops) g1 ts" by blast
  have "sale # sales = map JObj (fs # fss) \<and> length (t # ts) = length (fs # fss) \<and>
      rs' = rs @ map2 result_of (fs # fss) (t # ts) \<and> g' = foldl (f_add ops) g (t # ts)"
    using s r by simp
  then show ?case by (intro exI[of _ "fs # fss"] exI[of _ "t # ts"])
qed

lemma compute_sales_Inr:
  assumes "compute_sales ops sales pm = Inr ((rs, g), out)"
  shows "\<exists>fss ts. py_iter sales = Inr (map JObj fss) \<and> length ts = length fss \<and>
        rs = map2 result_of fss ts \<and> g = foldl (f_add ops) (f_zero ops) ts"
proof -
  from assms obtain ss where ss: "py_iter sales = Inr ss"
    and loop: "for_each (sale_step ops pm) ss (([], f_zero ops), []) = Inr ((rs, g), out)"
    by (auto simp: compute_sales_def split: sum.splits)
  from sales_loop_Inr[OF loop] ss show ?thesis by auto
qed

lemma total_map2_result_of: "length ts = length fss \<Longrightarrow> map total (map2 result_of fss ts) = ts"
  by (induction fss ts rule: list_induct2') (auto simp: result_of_def)

lemma sale_id_map2_result_of:
  "length ts = length fss \<Longrightarrow>
     map sale_id (map2 result_of fss ts) = map (\<lambda>fs. get_default fs ''SALE_ID'' (JStr ''UNKNOWN'')) fss"
  by (induction fss ts rule: list_induct2') (auto simp: result_of_def)

lemma customer_map2_result_of:
  "length ts = length fss \<Longrightarrow>
     map customer (map2 result_of fss ts) = map (\<lambda>fs. get_default fs ''Customer'' (JStr ''UNKNOWN'')) fss"
  by (induction fss ts rule: list_induct2') (auto simp: result_of_def)

section \<open>Evaluation\<close>

text \<open>The defining equations that evaluate the program on a concrete input.\<close>

lemmas eval_defs =
  build_price_map_def catalogue_step_def invalid_entry_msg_def invalid_price_msg_def
  compute_sales_def sale_step_def item_step_def not_found_msg_def invalid_quantity_msg_def
  get_default_def float_add_def exact_ops_def show_int_def show_nat.simps digit_def sq_def
  entry_title_def entry_price_def valid_entry_def

lemmas eval_defs2 = eval_defs item_product_def item_quantity_def sale_items_def in_float_range_def
  result_of_def

section \<open>Skipped items\<close>

lemma get_default_Cons:
  "get_default ((k', v) # fs) k d = (if k = k' then v else get_default fs k d)"
  by (simp add: get_default_def)

lemma sale_step_Items:
  "sale_step ops pm (JObj ((''Items'', JList its) # fs)) ((rs, g), out) =
     (case for_each (item_step ops pm (get_default fs ''SALE_ID'' (JStr ''UNKNOWN''))) its
             (f_zero ops, out) of
        Inl e \<Rightarrow> Inl e
      | Inr (sale_total, out') \<Rightarrow>
          Inr ((rs @ [result_of fs sale_total], f_add ops g sale_total), out'))"
  unfolding result_of_def by (simp add: sale_step_def get_default_Cons)



lemma sale_step_skip_line:
  assumes skip: "\<And>t out. item_step ops pm (get_default fs ''SALE_ID'' (JStr ''UNKNOWN'')) item (t, out)
                   = Inr (t, out @ [m])"
  shows "inserts_line m
           (sale_step ops pm (JObj ((''Items'', JList (xs @ item # ys)) # fs)) st)
           (sale_step ops pm (JObj ((''Items'', JList (xs @ ys)) # fs)) st)"
proof -
  let ?body = "item_step ops pm (get_default fs ''SALE_ID'' (JStr ''UNKNOWN''))"
  obtain rs g out where st: "st = ((rs, g), out)" by (cases st) auto
  have inner: "inserts_line m (for_each ?body (xs @ item # ys) (f_zero ops, out))
      (for_each ?body (xs @ ys) (f_zero ops, out))"
    by (rule for_each_skip_line[where body = ?body and x = item and m = m,
          OF item_step_appends_output skip])
  show ?thesis
  proof (cases "for_each ?body (xs @ ys) (f_zero ops, out)")
    case (Inl e)
    then have "for_each ?body (xs @ item # ys) (f_zero ops, out) = Inl e"
      using inner by (simp add: inserts_line_def)
    then show ?thesis
      unfolding st sale_step_Items Inl by (simp add: inserts_line_Inl)
  next
    case (Inr r)
    obtain t l where r: "r = (t, l)" by (cases r)
    from inner Inr r obtain l1 l2 where l: "l = l1 @ l2"
      and w: "for_each ?body (xs @ item # ys) (f_zero ops, out) = Inr (t, l1 @ [m] @ l2)"
      by (auto simp: inserts_line_def)
    show ?thesis
      unfolding st sale_step_Items Inr r w l
      using inserts_line_Inr[of m "(rs @ [result_of fs t], f_add ops g t)" l1 l2] by simp
  qed
qed

lemma compute_sales_skip_line:
  assumes skip: "\<And>t out. item_step ops pm (get_default fs ''SALE_ID'' (JStr ''UNKNOWN'')) item (t, out)
                   = Inr (t, out @ [m])"
  shows "inserts_line m
           (compute_sales ops (JList (pre @ JObj ((''Items'', JList (xs @ item # ys)) # fs) # post)) pm)
           (compute_sales ops (JList (pre @ JObj ((''Items'', JList (xs @ ys)) # fs) # post)) pm)"
proof -
  have "inserts_line m
          (for_each (sale_step ops pm)
             (pre @ JObj ((''Items'', JList (xs @ item # ys)) # fs) # post) (([], f_zero ops), []))
          (for_each (sale_step ops pm)
             (pre @ JObj ((''Items'', JList (xs @ ys)) # fs) # post) (([], f_zero ops), []))"
    by (rule for_each_replace_line[where body = "sale_step ops pm"
            and a = "JObj ((''Items'', JList (xs @ item # ys)) # fs)"
            and b = "JObj ((''Items'', JList (xs @ ys)) # fs)",
          OF sale_step_appends_output sale_step_skip_line[where m = m, OF skip]])
  then show ?thesis
    by (simp add: compute_sales_def)
qed




lemma unknown_product_line:
  assumes "key_of ops (item_product ifs) = Inr k" and "pm k = None"
  shows "inserts_line
           (''ERROR: Product '' @ [CHR 0x27] @ py_str ops (item_product ifs) @ [CHR 0x27]
            @ '' not found in catalogue (Sale: ''
            @ py_str ops (get_default fs ''SALE_ID'' (JStr ''UNKNOWN'')) @ ''). Skipping.'')
           (compute_sales ops
              (JList (pre @ JObj ((''Items'', JList (xs @ JObj ifs # ys)) # fs) # post)) pm)
           (compute_sales ops
              (JList (pre @ JObj ((''Items'', JList (xs @ ys)) # fs) # post)) pm)"
proof -
  let ?sid = "get_default fs ''SALE_ID'' (JStr ''UNKNOWN'')"
  let ?m = "''ERROR: Product '' @ [CHR 0x27] @ py_str ops (item_product ifs) @ [CHR 0x27]
            @ '' not found in catalogue (Sale: '' @ py_str ops ?sid @ ''). Skipping.''"
  have step: "\<And>t out. item_step ops pm ?sid (JObj ifs) (t, out) = Inr (t, out @ [?m])"
    using item_step_unknown[where pm = pm and k = k and sid = ?sid, OF assms]
    by (simp add: not_found_msg_def sq_def)
  show ?thesis
    by (rule compute_sales_skip_line[where m = ?m and item = "JObj ifs", OF step])
qed




lemma build_price_map_invalid_absent:
  assumes "build_price_map ops (JList (map JObj es)) = Inr (pm, out)"
    and "\<forall>e\<in>set es. key_of ops (entry_title e) = Inr k \<longrightarrow> \<not> valid_entry ops e"
  shows "pm k = None"
proof -
  have "pm = map_of (rev (valid_pairs ops es))"
    using assms(1) by (rule build_price_map_Inr)
  moreover have "k \<notin> fst ` set (valid_pairs ops es)"
    using assms(2) by (auto simp: set_valid_pairs)
  ultimately show ?thesis by (simp add: map_of_eq_None_iff)
qed

section \<open>When the pipeline returns\<close>

lemma item_step_total:
  assumes h: "hashable (item_product ifs)"
    and r: "\<And>k price q. key_of ops (item_product ifs) = Inr k \<Longrightarrow> pm k = Some price \<Longrightarrow>
              as_num (item_quantity ifs) = Some q \<Longrightarrow> \<not> num_le0 ops q \<Longrightarrow>
              in_float_range ops price q"
  shows "\<exists>t' out'. item_step ops pm sid (JObj ifs) (t, out) = Inr (t', out')"
proof -
  from key_of_hashable[OF h] obtain k where k: "key_of ops (item_product ifs) = Inr k" by blast
  show ?thesis
  proof (cases "pm k")
    case None
    then show ?thesis using item_step_unknown[where pm = pm, OF k None] by simp
  next
    case (Some price)
    show ?thesis
    proof (cases "case as_num (item_quantity ifs) of None \<Rightarrow> True | Some q \<Rightarrow> num_le0 ops q")
      case True
      then show ?thesis using item_step_bad_quantity[where pm = pm, OF k Some True] by simp
    next
      case False
      then obtain q where q: "as_num (item_quantity ifs) = Some q" "\<not> num_le0 ops q"
        by (auto split: option.splits)
      from r[OF k Some q] obtain v x where "num_mul ops price q = Inr v" "to_float ops v = Inr x"
        by (auto simp: in_float_range_def split: sum.splits)
      then show ?thesis
        using item_step_counted[where pm = pm, OF k Some q] by (simp add: float_add_def)
    qed
  qed
qed

lemma items_loop_total:
  assumes "\<forall>ifs\<in>set its. hashable (item_product ifs) \<and>
             (\<forall>k price q. key_of ops (item_product ifs) = Inr k \<and> pm k = Some price \<and>
                as_num (item_quantity ifs) = Some q \<and> \<not> num_le0 ops q \<longrightarrow>
                in_float_range ops price q)"
  shows "\<exists>t' out'. for_each (item_step ops pm sid) (map JObj its) (t, out) = Inr (t', out')"
  using assms
proof (induction its arbitrary: t out)
  case Nil
  then show ?case by simp
next
  case (Cons ifs its)
  have "\<exists>t' out'. item_step ops pm sid (JObj ifs) (t, out) = Inr (t', out')"
    by (rule item_step_total) (use Cons.prems in auto)
  then obtain t1 out1 where "item_step ops pm sid (JObj ifs) (t, out) = Inr (t1, out1)" by blast
  moreover have "\<exists>t' out'. for_each (item_step ops pm sid) (map JObj its) (t1, out1) = Inr (t', out')"
    by (rule Cons.IH) (use Cons.prems in auto)
  ultimately show ?case by auto
qed

lemma sale_step_total:
  assumes "sale_items fs = JList (map JObj its)"
    and "\<forall>ifs\<in>set its. hashable (item_product ifs) \<and>
             (\<forall>k price q. key_of ops (item_product ifs) = Inr k \<and> pm k = Some price \<and>
                as_num (item_quantity ifs) = Some q \<and> \<not> num_le0 ops q \<longrightarrow>
                in_float_range ops price q)"
  shows "\<exists>st'. sale_step ops pm (JObj fs) st = Inr st'"
proof -
  obtain rs g out where st: "st = ((rs, g), out)" by (cases st) auto
  from items_loop_total[OF assms(2), of "get_default fs ''SALE_ID'' (JStr ''UNKNOWN'')" "f_zero ops" out]
  obtain t' out' where
    "for_each (item_step ops pm (get_default fs ''SALE_ID'' (JStr ''UNKNOWN''))) (map JObj its)
       (f_zero ops, out) = Inr (t', out')" by blast
  then show ?thesis
    using assms(1) by (simp add: st sale_step_def sale_items_def)
qed

lemma sales_loop_total:
  assumes "\<forall>fs\<in>set ss. \<exists>its. sale_items fs = JList (map JObj its) \<and>
            (\<forall>ifs\<in>set its. hashable (item_product ifs) \<and>
               (\<forall>k price q. key_of ops (item_product ifs) = Inr k \<and> pm k = Some price \<and>
                  as_num (item_quantity ifs) = Some q \<and> \<not> num_le0 ops q \<longrightarrow>
                  in_float_range ops price q))"
  shows "\<exists>st'. for_each (sale_step ops pm) (map JObj ss) st = Inr st'"
  using assms
proof (induction ss arbitrary: st)
  case Nil
  then show ?case by simp
next
  case (Cons fs ss)
  from Cons.prems obtain its where its: "sale_items fs = JList (map JObj its)"
    "\<forall>ifs\<in>set its. hashable (item_product ifs) \<and>
               (\<forall>k price q. key_of ops (item_product ifs) = Inr k \<and> pm k = Some price \<and>
                  as_num (item_quantity ifs) = Some q \<and> \<not> num_le0 ops q \<longrightarrow>
                  in_float_range ops price q)"
    by auto
  from sale_step_total[OF its, of st] obtain st1 where "sale_step ops pm (JObj fs) st = Inr st1"
    by blast
  moreover have "\<exists>st'. for_each (sale_step ops pm) (map JObj ss) st1 = Inr st'"
    by (rule Cons.IH) (use Cons.prems in auto)
  ultimately show ?case by auto
qed

lemma compute_sales_length:
  assumes "compute_sales ops (JList (map JObj ss)) pm = Inr ((rs, g), out)"
  shows "length rs = length ss"
proof -
  from compute_sales_Inr[OF assms] obtain fss ts where
    h: "map JObj ss = map JObj fss" "length ts = length fss" "rs = map2 result_of fss ts"
    by auto
  have "length ss = length fss"
    using h(1) by (metis length_map)
  then show ?thesis using h(2,3) by simp
qed

lemma pipeline_completes:
  assumes titles: "\<forall>e\<in>set es. valid_entry ops e \<longrightarrow> hashable (entry_title e)"
    and items: "\<forall>s\<in>set ss. \<exists>its. sale_items s = JList (map JObj its) \<and>
                  (\<forall>i\<in>set its. hashable (item_product i) \<and>
                     (\<forall>e\<in>set es. \<forall>p q. valid_entry ops e \<and>
                        key_of ops (entry_title e) = key_of ops (item_product i) \<and>
                        as_num (entry_price e) = Some p \<and>
                        as_num (item_quantity i) = Some q \<and> \<not> num_le0 ops q \<longrightarrow>
                        in_float_range ops p q))"
  shows "\<exists>pm out rs g out'.
           build_price_map ops (JList (map JObj es)) = Inr (pm, out) \<and>
           compute_sales ops (JList (map JObj ss)) pm = Inr ((rs, g), out') \<and>
           length rs = length ss"
proof -
  from build_loop_total[OF titles, of Map.empty "[]"] obtain pm out where
    build: "build_price_map ops (JList (map JObj es)) = Inr (pm, out)"
    by (auto simp: build_price_map_def)
  have pm: "pm = map_of (rev (valid_pairs ops es))"
    using build by (rule build_price_map_Inr)
  have stored: "\<exists>e\<in>set es. valid_entry ops e \<and> key_of ops (entry_title e) = Inr k
                  \<and> as_num (entry_price e) = Some p"
    if "pm k = Some p" for k p
  proof -
    from that have "(k, p) \<in> set (valid_pairs ops es)"
      unfolding pm by (auto dest: map_of_SomeD)
    then show ?thesis by (auto simp: set_valid_pairs)
  qed
  have "\<forall>fs\<in>set ss. \<exists>its. sale_items fs = JList (map JObj its) \<and>
            (\<forall>ifs\<in>set its. hashable (item_product ifs) \<and>
               (\<forall>k price q. key_of ops (item_product ifs) = Inr k \<and> pm k = Some price \<and>
                  as_num (item_quantity ifs) = Some q \<and> \<not> num_le0 ops q \<longrightarrow>
                  in_float_range ops price q))"
  proof
    fix fs assume "fs \<in> set ss"
    with items obtain its where its: "sale_items fs = JList (map JObj its)"
      "\<forall>i\<in>set its. hashable (item_product i) \<and>
                     (\<forall>e\<in>set es. \<forall>p q. valid_entry ops e \<and>
                        key_of ops (entry_title e) = key_of ops (item_product i) \<and>
                        as_num (entry_price e) = Some p \<and>
                        as_num (item_quantity i) = Some q \<and> \<not> num_le0 ops q \<longrightarrow>
                        in_float_range ops p q)"
      by blast
    have "\<forall>ifs\<in>set its. hashable (item_product ifs) \<and>
               (\<forall>k price q. key_of ops (item_product ifs) = Inr k \<and> pm k = Some price \<and>
                  as_num (item_quantity ifs) = Some q \<and> \<not> num_le0 ops q \<longrightarrow>
                  in_float_range ops price q)"
    proof (intro ballI conjI allI impI)
      fix ifs assume "ifs \<in> set its"
      then show "hashable (item_product ifs)" using its(2) by blast
    next
      fix ifs k price q
      assume i: "ifs \<in> set its"
        and h: "key_of ops (item_product ifs) = Inr k \<and> pm k = Some price \<and>
                  as_num (item_quantity ifs) = Some q \<and> \<not> num_le0 ops q"
      from stored[of k price] h obtain e where e: "e \<in> set es" "valid_entry ops e"
        "key_of ops (entry_title e) = Inr k" "as_num (entry_price e) = Some price"
        by blast
      have "key_of ops (entry_title e) = key_of ops (item_product ifs)"
        using e(3) h by simp
      then show "in_float_range ops price q"
        using its(2) i e h by blast
    qed
    with its(1) show "\<exists>its. sale_items fs = JList (map JObj its) \<and>
            (\<forall>ifs\<in>set its. hashable (item_product ifs) \<and>
               (\<forall>k price q. key_of ops (item_product ifs) = Inr k \<and> pm k = Some price \<and>
                  as_num (item_quantity ifs) = Some q \<and> \<not> num_le0 ops q \<longrightarrow>
                  in_float_range ops price q))"
      by blast
  qed
  from sales_loop_total[OF this, of "(([], f_zero ops), [])"] obtain rs g out' where
    sales: "compute_sales ops (JList (map JObj ss)) pm = Inr ((rs, g), out')"
    by (auto simp: compute_sales_def)
  show ?thesis
    using build sales compute_sales_length[OF sales] by blast
qed

section \<open>The report, in closed form\<close>

lemma foldl_append_result:
  "foldl (append_result ops) lines results = lines @ concat (map (result_block ops) results)"
  by (induction results arbitrary: lines) (simp_all add: append_result_def result_block_def)

lemma report_lines_eq:
  "report_lines ops results grand_total elapsed_time =
     [replicate 50 (CHR ''=''), ''           SALES RESULTS REPORT'', replicate 50 (CHR ''='')]
     @ concat (map (result_block ops) results)
     @ [''GRAND TOTAL: $'' @ format_f ops True 2 grand_total,
        replicate 50 (CHR ''=''),
        ''Execution time: '' @ format_f ops False 4 elapsed_time @ '' seconds'']"
  by (simp add: report_lines_def foldl_append_result)

lemma digit_is_digit: "d < 10 \<Longrightarrow> is_digit (digit d)"
  unfolding is_digit_def digit_def by (rule nth_mem) simp

lemma digit_0: "digit 0 = CHR ''0''"
  by (simp add: digit_def)

lemma show_nat_small: "n < 10 \<Longrightarrow> show_nat n = [digit n]"
  by (simp add: show_nat.simps)

lemma show_nat_large: "\<not> n < 10 \<Longrightarrow> show_nat n = show_nat (n div 10) @ [digit (n mod 10)]"
  by (subst show_nat.simps) simp

lemma show_nat_digits: "list_all is_digit (show_nat n)"
proof (induction n rule: show_nat.induct)
  case (1 n)
  show ?case
  proof (cases "n < 10")
    case True
    then show ?thesis by (simp add: show_nat_small digit_is_digit)
  next
    case False
    then show ?thesis using 1 by (simp add: show_nat_large digit_is_digit)
  qed
qed

lemma show_nat_nonempty: "show_nat n \<noteq> []"
  by (cases "n < 10") (simp_all add: show_nat_small show_nat_large)

lemma two_decimals:
  assumes "k < 100"
  shows "replicate (2 - length (show_nat k)) (CHR ''0'') @ show_nat k
       = [digit (k div 10), digit (k mod 10)]"
proof (cases "k < 10")
  case True
  then show ?thesis by (simp add: show_nat_small digit_0)
next
  case False
  have "k div 10 < 10" using assms by simp
  then show ?thesis using False by (simp add: show_nat_large show_nat_small)
qed

lemma show_nat_2: "\<not> k < 10 \<Longrightarrow> k < 100 \<Longrightarrow> show_nat k = [digit (k div 10), digit (k mod 10)]"
  by (subst show_nat_large, assumption, subst show_nat_small) simp_all

lemma show_nat_3:
  assumes "\<not> k < 100" "k < 1000"
  shows "show_nat k = [digit (k div 100), digit (k div 10 mod 10), digit (k mod 10)]"
proof -
  have a: "\<not> k < 10" "\<not> k div 10 < 10" "k div 10 < 100" using assms by simp_all
  have b: "k div 10 div 10 = k div 100" by (simp add: div_mult2_eq[symmetric])
  show ?thesis
    unfolding show_nat_large[OF a(1)] show_nat_2[OF a(2) a(3)] b by simp
qed

lemma show_nat_4:
  assumes "\<not> k < 1000" "k < 10000"
  shows "show_nat k = [digit (k div 1000), digit (k div 100 mod 10), digit (k div 10 mod 10),
                       digit (k mod 10)]"
proof -
  have a: "\<not> k < 10" "\<not> k div 10 < 100" "k div 10 < 1000" using assms by simp_all
  have b: "k div 10 div 100 = k div 1000" "k div 10 div 10 = k div 100"
    by (simp_all add: div_mult2_eq[symmetric])
  show ?thesis
    unfolding show_nat_large[OF a(1)] show_nat_3[OF a(2) a(3)] b by simp
qed

lemma four_decimals:
  assumes "k < 10000"
  shows "replicate (4 - length (show_nat k)) (CHR ''0'') @ show_nat k
       = [digit (k div 1000), digit (k div 100 mod 10), digit (k div 10 mod 10), digit (k mod 10)]"
proof -
  have r3: "replicate 3 (CHR ''0'') = ''000''" by (simp add: numeral_3_eq_3)
  have r2: "replicate 2 (CHR ''0'') = ''00''" by (simp add: numeral_2_eq_2)
  consider "k < 10" | "\<not> k < 10" "k < 100" | "\<not> k < 100" "k < 1000" | "\<not> k < 1000"
    by blast
  then show ?thesis
  proof cases
    case 1
    then show ?thesis by (simp add: show_nat_small r3 digit_0)
  next
    case 2
    then show ?thesis by (simp add: show_nat_2 r2 digit_0)
  next
    case 3
    then show ?thesis by (simp add: show_nat_3 digit_0)
  next
    case 4
    then show ?thesis using assms by (simp add: show_nat_4)
  qed
qed

lemma nth_small2: "list_all P [v, va] \<Longrightarrow> i < 2 \<Longrightarrow> P ([v, va] ! i) \<and> i mod 4 \<noteq> 3"
proof -
  assume a: "list_all P [v, va]" and "i < 2"
  then have "i = 0 \<or> i = 1" by linarith
  then show ?thesis using a by auto
qed

lemma nth_small3: "list_all P [v, va, vb] \<Longrightarrow> i < 3 \<Longrightarrow> P ([v, va, vb] ! i) \<and> i mod 4 \<noteq> 3"
proof -
  assume a: "list_all P [v, va, vb]" and "i < 3"
  then have "i = 0 \<or> i = 1 \<or> i = 2" by linarith
  then show ?thesis using a by auto
qed

lemma nth_group_head:
  "list_all is_digit (a # b # c # d # rest) \<Longrightarrow> i < 4 \<Longrightarrow>
   (if i mod 4 = 3 then (a # b # c # CHR '','' # xs) ! i = CHR '',''
    else is_digit ((a # b # c # CHR '','' # xs) ! i))"
proof -
  assume a: "list_all is_digit (a # b # c # d # rest)" and "i < 4"
  then have "i = 0 \<or> i = 1 \<or> i = 2 \<or> i = 3" by linarith
  then show ?thesis using a by auto
qed

lemma nth_group_tail: "(a # b # c # e # xs) ! (j + 4) = xs ! j"
  by (simp add: numeral_eq_Suc)

lemma group3_nth:
  "list_all is_digit s \<Longrightarrow> i < length (group3 s) \<Longrightarrow>
     (if i mod 4 = 3 then group3 s ! i = CHR '','' else is_digit (group3 s ! i))"
proof (induction s arbitrary: i rule: group3.induct)
  case (1 a b c d rest)
  have g: "group3 (a # b # c # d # rest) = a # b # c # CHR '','' # group3 (d # rest)"
    by simp
  show ?case
  proof (cases "i < 4")
    case True
    show ?thesis unfolding g using "1.prems"(1) True by (rule nth_group_head)
  next
    case False
    define j where "j = i - 4"
    have i: "i = j + 4" using False by (simp add: j_def)
    have "i < length (group3 (d # rest)) + 4" using "1.prems"(2) unfolding g by simp
    then have "j < length (group3 (d # rest))" unfolding i by simp
    moreover have "list_all is_digit (d # rest)" using "1.prems"(1) by simp
    ultimately have ih: "if j mod 4 = 3 then group3 (d # rest) ! j = CHR '','' else is_digit (group3 (d # rest) ! j)"
      by (rule "1.IH"[rotated])
    have m: "(j + 4) mod 4 = j mod 4" by simp
    show ?thesis unfolding g i nth_group_tail m by (rule ih)
  qed
next
  case "2_1"
  then show ?case by simp
next
  case "2_2"
  then show ?case by simp
next
  case "2_3"
  have "i < 2" using "2_3"(2) by simp
  then show ?case using nth_small2[OF "2_3"(1)] by simp
next
  case "2_4"
  have "i < 3" using "2_4"(2) by simp
  then show ?case using nth_small3[OF "2_4"(1)] by simp
qed

lemma group3_length_mod: "s \<noteq> [] \<Longrightarrow> length (group3 s) mod 4 \<noteq> 0"
proof (induction s rule: group3.induct)
  case (1 a b c d rest)
  have "length (group3 (a # b # c # d # rest)) = length (group3 (d # rest)) + 4" by simp
  then show ?case using 1 by (simp del: group3.simps)
qed simp_all

lemma group3_nonempty: "s \<noteq> [] \<Longrightarrow> group3 s \<noteq> []"
  by (induction s rule: group3.induct) simp_all

lemma group3_filter: "list_all is_digit s \<Longrightarrow> filter is_digit (group3 s) = s"
proof (induction s rule: group3.induct)
  case (1 a b c d rest)
  have "\<not> is_digit (CHR '','')" by (simp add: is_digit_def)
  then show ?case using 1 by simp
qed simp_all

lemma thousands_grouped:
  assumes "list_all is_digit w" "w \<noteq> []"
  shows "grouped_by_thousands (thousands w)"
proof -
  have a: "list_all is_digit (rev w)" using assms(1) by (simp add: list_all_iff)
  have b: "rev w \<noteq> []" using assms(2) by simp
  show ?thesis
    unfolding grouped_by_thousands_def thousands_def rev_rev_ident length_rev
    using group3_nth[OF a] group3_length_mod[OF b] group3_nonempty[OF b] by simp
qed

lemma thousands_filter:
  assumes "list_all is_digit w"
  shows "filter is_digit (thousands w) = w"
proof -
  have a: "list_all is_digit (rev w)" using assms(1) by (simp add: list_all_iff)
  have "filter is_digit (thousands w) = rev (filter is_digit (group3 (rev w)))"
    unfolding thousands_def by (simp add: rev_filter)
  then show ?thesis using group3_filter[OF a] by simp
qed

lemma digit_cases:
  "(d::nat) < 10 \<Longrightarrow> d = 0 \<or> d = 1 \<or> d = 2 \<or> d = 3 \<or> d = 4 \<or> d = 5 \<or> d = 6 \<or> d = 7 \<or> d = 8 \<or> d = 9"
  by presburger

lemma digit_value: "d < 10 \<Longrightarrow> (of_char (digit d) :: nat) - 48 = d"
  using digit_cases[of d] by (auto simp: digit_def)

lemma decimal_value_show_nat: "decimal_value (show_nat n) = n"
proof (induction n rule: show_nat.induct)
  case (1 n)
  show ?case
  proof (cases "n < 10")
    case True
    then show ?thesis by (simp add: show_nat_small decimal_value_def digit_value)
  next
    case False
    have "decimal_value (show_nat (n div 10)) = n div 10" using False by (rule 1)
    then show ?thesis
      using False by (simp add: show_nat_large decimal_value_def digit_value)
  qed
qed

lemma mod_mult_div: "(m::nat) mod (a * b) div a = m div a mod b"
  by (cases "a = 0") (simp_all add: mod_mult2_eq)

lemma cents_digits:
  "(m::nat) mod 100 div 10 = m div 10 mod 10" "m mod 100 mod 10 = m mod 10"
  using mod_mult_div[of m 10 10] by (simp_all add: mod_mod_cancel)

lemma ten_thousandth_digits:
  "(m::nat) mod 10000 div 1000 = m div 1000 mod 10"
  "m mod 10000 div 100 mod 10 = m div 100 mod 10"
  "m mod 10000 div 10 mod 10 = m div 10 mod 10"
  "m mod 10000 mod 10 = m mod 10"
  using mod_mult_div[of m 1000 10] mod_mult_div[of m 100 100] mod_mult_div[of m 10 1000]
  by (simp_all add: mod_mod_cancel)

lemma join_concat: "join sep (xs @ [x]) = concat (map (\<lambda>l. l @ sep) xs) @ x"
proof (induction xs)
  case Nil
  show ?case by simp
next
  case (Cons a xs)
  obtain y ys where e: "xs @ [x] = y # ys" by (cases "xs @ [x]") simp_all
  have "join sep ((a # xs) @ [x]) = a @ sep @ join sep (xs @ [x])" by (simp add: e)
  then show ?case using Cons by simp
qed

lemma py_fixed_2:
  "py_fixed True 2 (Finite neg m) =
     (if neg then ''-'' else []) @ thousands (show_nat (m div 100)) @ ''.''
     @ [digit (m div 10 mod 10), digit (m mod 10)]"
proof -
  have p: "(10::nat) ^ 2 = 100" by simp
  have "m mod 100 < 100" by simp
  then have "replicate (2 - length (show_nat (m mod 100))) (CHR ''0'') @ show_nat (m mod 100)
      = [digit (m mod 100 div 10), digit (m mod 100 mod 10)]"
    by (rule two_decimals)
  then have "replicate (2 - length (show_nat (m mod 100))) (CHR ''0'') @ show_nat (m mod 100)
      = [digit (m div 10 mod 10), digit (m mod 10)]"
    by (simp only: cents_digits)
  then show ?thesis unfolding py_fixed.simps p by simp
qed

lemma py_fixed_4:
  "py_fixed False 4 (Finite neg m) =
     (if neg then ''-'' else []) @ show_nat (m div 10000) @ ''.''
     @ [digit (m div 1000 mod 10), digit (m div 100 mod 10), digit (m div 10 mod 10),
        digit (m mod 10)]"
proof -
  have p: "(10::nat) ^ 4 = 10000" by simp
  have "m mod 10000 < 10000" by simp
  then have "replicate (4 - length (show_nat (m mod 10000))) (CHR ''0'') @ show_nat (m mod 10000)
      = [digit (m mod 10000 div 1000), digit (m mod 10000 div 100 mod 10),
         digit (m mod 10000 div 10 mod 10), digit (m mod 10000 mod 10)]"
    by (rule four_decimals)
  then have "replicate (4 - length (show_nat (m mod 10000))) (CHR ''0'') @ show_nat (m mod 10000)
      = [digit (m div 1000 mod 10), digit (m div 100 mod 10), digit (m div 10 mod 10),
         digit (m mod 10)]"
    by (simp only: ten_thousandth_digits)
  then show ?thesis unfolding py_fixed.simps p by simp
qed

lemma decimal_value_2:
  assumes "a < 10" "b < 10"
  shows "decimal_value [digit a, digit b] = 10 * a + b"
  using assms by (simp add: decimal_value_def digit_value)

lemma decimal_value_4:
  assumes "a < 10" "b < 10" "c < 10" "d < 10"
  shows "decimal_value [digit a, digit b, digit c, digit d] = 1000 * a + 100 * b + 10 * c + d"
  using assms by (simp add: decimal_value_def digit_value)

lemma cents_value: "10 * ((m::nat) div 10 mod 10) + m mod 10 = m mod 100"
proof -
  have "m mod (10 * 10) = 10 * (m div 10 mod 10) + m mod 10" by (rule mod_mult2_eq)
  then show ?thesis by simp
qed

lemma ten_thousandths_value:
  "1000 * ((m::nat) div 1000 mod 10) + 100 * (m div 100 mod 10) + 10 * (m div 10 mod 10) + m mod 10
     = m mod 10000"
proof -
  have a: "m mod (1000 * 10) = 1000 * (m div 1000 mod 10) + m mod 1000" by (rule mod_mult2_eq)
  have b: "m mod (100 * 10) = 100 * (m div 100 mod 10) + m mod 100" by (rule mod_mult2_eq)
  show ?thesis using a b cents_value[of m] by simp
qed

lemma format_output_eq:
  "format_output ops results grand_total elapsed_time =
     concat (map (\<lambda>line. line @ [CHR 0x0A])
       ([replicate 50 (CHR ''=''), ''           SALES RESULTS REPORT'', replicate 50 (CHR ''='')]
        @ concat (map (result_block ops) results)
        @ [''GRAND TOTAL: $'' @ format_f ops True 2 grand_total, replicate 50 (CHR ''='')]))
     @ ''Execution time: '' @ format_f ops False 4 elapsed_time @ '' seconds''"
proof -
  let ?head = "[replicate 50 (CHR ''=''), ''           SALES RESULTS REPORT'', replicate 50 (CHR ''='')]
        @ concat (map (result_block ops) results)
        @ [''GRAND TOTAL: $'' @ format_f ops True 2 grand_total, replicate 50 (CHR ''='')]"
  let ?last = "''Execution time: '' @ format_f ops False 4 elapsed_time @ '' seconds''"
  have lines: "report_lines ops results grand_total elapsed_time = ?head @ [?last]"
    by (simp add: report_lines_eq)
  show ?thesis unfolding format_output_def lines join_concat newline_def ..
qed

section \<open>Properties of \<^verbatim>\<open>compute_sales\<close>\<close>

text \<open>
  C1. Whenever \<^verbatim>\<open>compute_sales\<close> returns, for any price map and any sales, the grand total
  is the float sum of the totals of the results it returns, accumulated from \<^verbatim>\<open>0.0\<close> in the
  order of the results and never rounded to cents.
\<close>

theorem grand_total_is_sum:
  assumes "compute_sales ops sales pm = Inr ((rs, g), out)"
  shows "g = foldl (f_add ops) (f_zero ops) (map total rs)"
proof -
  from compute_sales_Inr[OF assms] obtain fss ts where
    h: "length ts = length fss" "rs = map2 result_of fss ts"
       "g = foldl (f_add ops) (f_zero ops) ts"
    by blast
  have "map total rs = ts"
    unfolding h(2) using h(1) by (rule total_map2_result_of)
  then show ?thesis using h(3) by simp
qed

theorem grand_total_is_sum_witness:
  "compute_sales exact_ops
      (JList [JObj [(''SALE_ID'', JStr ''S1''), (''Customer'', JStr ''Bob''),
                    (''Items'', JList [JObj [(''Product'', JStr ''Apple''), (''Quantity'', JInt 3)]])],
              JObj [(''SALE_ID'', JStr ''S2''),
                    (''Items'', JList [JObj [(''Product'', JStr ''Apple''), (''Quantity'', JInt 4)]])]])
      [KStr ''Apple'' \<mapsto> PFloat (5 / 2)]
    = Inr (([\<lparr>sale_id = JStr ''S1'', customer = JStr ''Bob'', total = 15 / 2\<rparr>,
             \<lparr>sale_id = JStr ''S2'', customer = JStr ''UNKNOWN'', total = 10\<rparr>], 35 / 2), [])
   \<and> (35 / 2 :: rat)
     = foldl (f_add exact_ops) (f_zero exact_ops)
         (map total [\<lparr>sale_id = JStr ''S1'', customer = JStr ''Bob'', total = 15 / 2\<rparr>,
                     \<lparr>sale_id = JStr ''S2'', customer = JStr ''UNKNOWN'', total = 10\<rparr>])"
proof -
  have run: "compute_sales exact_ops
      (JList [JObj [(''SALE_ID'', JStr ''S1''), (''Customer'', JStr ''Bob''),
                    (''Items'', JList [JObj [(''Product'', JStr ''Apple''), (''Quantity'', JInt 3)]])],
              JObj [(''SALE_ID'', JStr ''S2''),
                    (''Items'', JList [JObj [(''Product'', JStr ''Apple''), (''Quantity'', JInt 4)]])]])
      [KStr ''Apple'' \<mapsto> PFloat (5 / 2)]
    = Inr (([\<lparr>sale_id = JStr ''S1'', customer = JStr ''Bob'', total = 15 / 2\<rparr>,
             \<lparr>sale_id = JStr ''S2'', customer = JStr ''UNKNOWN'', total = 10\<rparr>], 35 / 2), [])"
    by (simp add: eval_defs)
  show ?thesis
    using run grand_total_is_sum[OF run] by simp
qed

text \<open>
  C2. On a sequence of sale records, whatever price map it is given, \<^verbatim>\<open>compute_sales\<close>
  returns one result per record, in the order of the input, each with the \<^verbatim>\<open>SALE_ID\<close> and
  the \<^verbatim>\<open>Customer\<close> of its record (\<^verbatim>\<open>"UNKNOWN"\<close> for an absent one), however many items of
  the records are skipped. It does return when the items of every record are a sequence of
  item records with a hashable product and no product of a price and a valid quantity is
  beyond the floats: unknown products and invalid quantities never keep it from returning.
\<close>

theorem one_result_per_sale:
  "(\<forall>rs g out. compute_sales ops (JList (map JObj ss)) pm = Inr ((rs, g), out) \<longrightarrow>
       length rs = length ss
       \<and> map sale_id rs = map (\<lambda>fs. get_default fs ''SALE_ID'' (JStr ''UNKNOWN'')) ss
       \<and> map customer rs = map (\<lambda>fs. get_default fs ''Customer'' (JStr ''UNKNOWN'')) ss)
   \<and> ((\<forall>fs\<in>set ss. \<exists>its. sale_items fs = JList (map JObj its) \<and>
          (\<forall>ifs\<in>set its. hashable (item_product ifs) \<and>
             (\<forall>k price q. key_of ops (item_product ifs) = Inr k \<and> pm k = Some price \<and>
                as_num (item_quantity ifs) = Some q \<and> \<not> num_le0 ops q \<longrightarrow>
                in_float_range ops price q)))
       \<longrightarrow> (\<exists>rs g out. compute_sales ops (JList (map JObj ss)) pm = Inr ((rs, g), out)))"
proof (intro conjI allI impI)
  fix rs g out
  assume run: "compute_sales ops (JList (map JObj ss)) pm = Inr ((rs, g), out)"
  from compute_sales_Inr[OF run] obtain fss ts where
    h: "map JObj ss = map JObj fss" "length ts = length fss" "rs = map2 result_of fss ts"
    by auto
  have "inj (JObj :: (string \<times> 'a json) list \<Rightarrow> 'a json)" by (simp add: inj_def)
  with h(1) have ss: "ss = fss" by (simp add: inj_map_eq_map)
  show "length rs = length ss"
    using ss h(2,3) by simp
  show "map sale_id rs = map (\<lambda>fs. get_default fs ''SALE_ID'' (JStr ''UNKNOWN'')) ss"
    unfolding h(3) ss by (rule sale_id_map2_result_of[OF h(2)])
  show "map customer rs = map (\<lambda>fs. get_default fs ''Customer'' (JStr ''UNKNOWN'')) ss"
    unfolding h(3) ss by (rule customer_map2_result_of[OF h(2)])
next
  assume "\<forall>fs\<in>set ss. \<exists>its. sale_items fs = JList (map JObj its) \<and>
          (\<forall>ifs\<in>set its. hashable (item_product ifs) \<and>
             (\<forall>k price q. key_of ops (item_product ifs) = Inr k \<and> pm k = Some price \<and>
                as_num (item_quantity ifs) = Some q \<and> \<not> num_le0 ops q \<longrightarrow>
                in_float_range ops price q))"
  from sales_loop_total[OF this, of "(([], f_zero ops), [])"]
  show "\<exists>rs g out. compute_sales ops (JList (map JObj ss)) pm = Inr ((rs, g), out)"
    by (auto simp: compute_sales_def)
qed

theorem one_result_per_sale_witness:
  "compute_sales exact_ops
      (JList (map JObj
         [[(''SALE_ID'', JStr ''S1''), (''Customer'', JStr ''Bob''),
           (''Items'', JList [JObj [(''Product'', JStr ''Pear''), (''Quantity'', JInt 3)],
                              JObj [(''Product'', JStr ''Apple''), (''Quantity'', JInt 0)]])],
          [(''SALE_ID'', JStr ''S2''), (''Customer'', JStr ''Eve'')]]))
      [KStr ''Apple'' \<mapsto> PFloat (5 / 2)]
    = Inr (([\<lparr>sale_id = JStr ''S1'', customer = JStr ''Bob'', total = 0\<rparr>,
             \<lparr>sale_id = JStr ''S2'', customer = JStr ''Eve'', total = 0\<rparr>], 0),
           [''ERROR: Product '' @ sq @ ''Pear'' @ sq @ '' not found in catalogue (Sale: S1). Skipping.'',
            ''WARNING: Invalid quantity for '' @ sq @ ''Apple'' @ sq @ '' (Sale: S1): 0. Skipping.''])
   \<and> length [\<lparr>sale_id = JStr ''S1'', customer = JStr ''Bob'', total = 0 :: rat\<rparr>,
              \<lparr>sale_id = JStr ''S2'', customer = JStr ''Eve'', total = 0\<rparr>] = 2"
proof -
  have run: "compute_sales exact_ops
      (JList (map JObj
         [[(''SALE_ID'', JStr ''S1''), (''Customer'', JStr ''Bob''),
           (''Items'', JList [JObj [(''Product'', JStr ''Pear''), (''Quantity'', JInt 3)],
                              JObj [(''Product'', JStr ''Apple''), (''Quantity'', JInt 0)]])],
          [(''SALE_ID'', JStr ''S2''), (''Customer'', JStr ''Eve'')]]))
      [KStr ''Apple'' \<mapsto> PFloat (5 / 2)]
    = Inr (([\<lparr>sale_id = JStr ''S1'', customer = JStr ''Bob'', total = 0\<rparr>,
             \<lparr>sale_id = JStr ''S2'', customer = JStr ''Eve'', total = 0\<rparr>], 0),
           [''ERROR: Product '' @ sq @ ''Pear'' @ sq @ '' not found in catalogue (Sale: S1). Skipping.'',
            ''WARNING: Invalid quantity for '' @ sq @ ''Apple'' @ sq @ '' (Sale: S1): 0. Skipping.''])"
    by (simp add: eval_defs)
  show ?thesis
    using run
      one_result_per_sale[of exact_ops
        "[[(''SALE_ID'', JStr ''S1''), (''Customer'', JStr ''Bob''),
           (''Items'', JList [JObj [(''Product'', JStr ''Pear''), (''Quantity'', JInt 3)],
                              JObj [(''Product'', JStr ''Apple''), (''Quantity'', JInt 0)]])],
          [(''SALE_ID'', JStr ''S2''), (''Customer'', JStr ''Eve'')]]"
        "[KStr ''Apple'' \<mapsto> PFloat (5 / 2)]"]
    by simp
qed

section \<open>Properties of \<^verbatim>\<open>build_price_map\<close>\<close>





text \<open>
  C6. Whenever \<^verbatim>\<open>build_price_map\<close> returns a price map, a title is mapped to the price of
  the last valid entry that has it in the input order: a valid entry that no valid entry
  with the same title follows decides the price stored, whatever stands before it.
\<close>

theorem build_price_map_last_wins:
  assumes "build_price_map ops (JList (map JObj (xs @ fs # ys))) = Inr (pm, out)"
    and "valid_entry ops fs"
    and "key_of ops (entry_title fs) = Inr k"
    and "as_num (entry_price fs) = Some p"
    and "\<forall>g\<in>set ys. valid_entry ops g \<longrightarrow> key_of ops (entry_title g) \<noteq> Inr k"
  shows "pm k = Some p"
proof -
  have pm: "pm = map_of (rev (valid_pairs ops (xs @ fs # ys)))"
    using assms(1) by (rule build_price_map_Inr)
  have pair: "entry_pair ops fs = Some (k, p)"
    using assms(2-4) by (simp add: entry_pair_def)
  have "k \<notin> fst ` set (valid_pairs ops ys)"
    using assms(5) by (auto simp: set_valid_pairs)
  then have later: "map_of (rev (valid_pairs ops ys)) k = None"
    by (simp add: map_of_eq_None_iff)
  have "valid_pairs ops (xs @ fs # ys) = valid_pairs ops xs @ (k, p) # valid_pairs ops ys"
    using pair valid_pairs_append[of ops xs "fs # ys"] by simp
  then show ?thesis
    unfolding pm using later by (simp add: map_add_def)
qed

theorem build_price_map_last_wins_witness:
  "build_price_map exact_ops
      (JList (map JObj ([[(''title'', JStr ''A''), (''price'', JInt 1)]]
                        @ [(''title'', JStr ''A''), (''price'', JInt 2)]
                        # [[(''title'', JStr ''B''), (''price'', JInt 7)]])))
    = Inr ([KStr ''A'' \<mapsto> PInt 2, KStr ''B'' \<mapsto> PInt 7], [])
   \<and> [KStr ''A'' \<mapsto> PInt 2, KStr ''B'' \<mapsto> PInt 7] (KStr ''A'') = Some (PInt 2 :: rat pynum)"
proof -
  have run: "build_price_map exact_ops
      (JList (map JObj ([[(''title'', JStr ''A''), (''price'', JInt 1)]]
                        @ [(''title'', JStr ''A''), (''price'', JInt 2)]
                        # [[(''title'', JStr ''B''), (''price'', JInt 7)]])))
    = Inr ([KStr ''A'' \<mapsto> PInt 2, KStr ''B'' \<mapsto> PInt 7], [])"
    by (simp add: eval_defs)
  show ?thesis
    using run build_price_map_last_wins[OF run, of "KStr ''A''" "PInt 2"]
    by (simp add: eval_defs)
qed

section \<open>Items that \<^verbatim>\<open>compute_sales\<close> skips or counts\<close>

text \<open>
  C4. The product of an item is never checked to be a string. When it is a list or a
  dictionary, the test \<^verbatim>\<open>product not in price_map\<close> raises \<^verbatim>\<open>TypeError\<close>: the item is not
  skipped, no line is printed and \<^verbatim>\<open>compute_sales\<close> returns nothing, although such a product
  is not a key of the price map. On the same sale with the unknown product given as a
  string, the function prints the error line that names the product and the sale, and the
  other item of the sale makes the total.
\<close>

theorem unhashable_product_raises:
  "compute_sales exact_ops
       (JList [JObj [(''SALE_ID'', JStr ''S1''),
                     (''Items'', JList [JObj [(''Product'', JList [JStr ''Pear'']), (''Quantity'', JInt 1)],
                                        JObj [(''Product'', JStr ''Apple''), (''Quantity'', JInt 3)]])]])
       [KStr ''Apple'' \<mapsto> PFloat (5 / 2)]
     = Inl TypeError
   \<and> compute_sales exact_ops
       (JList [JObj [(''SALE_ID'', JStr ''S1''),
                     (''Items'', JList [JObj [(''Product'', JStr ''Pear''), (''Quantity'', JInt 1)],
                                        JObj [(''Product'', JStr ''Apple''), (''Quantity'', JInt 3)]])]])
       [KStr ''Apple'' \<mapsto> PFloat (5 / 2)]
     = Inr (([\<lparr>sale_id = JStr ''S1'', customer = JStr ''UNKNOWN'', total = 15 / 2\<rparr>], 15 / 2),
            [''ERROR: Product '' @ [CHR 0x27] @ ''Pear'' @ [CHR 0x27]
             @ '' not found in catalogue (Sale: S1). Skipping.''])"
  by (simp add: eval_defs)





section \<open>The pipeline\<close>

text \<open>
  C7. The pipeline raises on well-formed input, since the type of a title or of a product
  is never checked and no exception is handled. A catalogue record whose title is a list
  makes \<^verbatim>\<open>price_map[title] = price\<close> raise \<^verbatim>\<open>TypeError\<close>. An item record whose product is a
  dictionary makes \<^verbatim>\<open>product not in price_map\<close> raise \<^verbatim>\<open>TypeError\<close>. The integer price
  \<open>10^400\<close> is valid and is stored, and \<^verbatim>\<open>sale_total += ...\<close> raises \<^verbatim>\<open>OverflowError\<close> on an
  item that refers to it.
\<close>

theorem pipeline_raises:
  "build_price_map exact_ops (JList [JObj [(''title'', JList []), (''price'', JInt 1)]])
     = Inl TypeError
   \<and> compute_sales exact_ops
       (JList [JObj [(''Items'', JList [JObj [(''Product'', JObj []), (''Quantity'', JInt 1)]])]])
       Map.empty
     = Inl TypeError
   \<and> build_price_map exact_ops (JList [JObj [(''title'', JStr ''A''), (''price'', JInt (10 ^ 400))]])
     = Inr ([KStr ''A'' \<mapsto> PInt (10 ^ 400)], [])
   \<and> compute_sales exact_ops
       (JList [JObj [(''Items'', JList [JObj [(''Product'', JStr ''A''), (''Quantity'', JInt 1)]])]])
       [KStr ''A'' \<mapsto> PInt (10 ^ 400)]
     = Inl OverflowError"
  by (simp add: eval_defs)

section \<open>Properties of \<^verbatim>\<open>format_output\<close>\<close>

text \<open>
  C8, as amended. \<^verbatim>\<open>format_output\<close> returns its lines, each but the last followed by a
  newline, and ends with the \<^verbatim>\<open>s\<close> of \<^verbatim>\<open>seconds\<close>: a banner of 50 \<^verbatim>\<open>=\<close>, the title line, a
  banner; for each result in order its \<^verbatim>\<open>Sale ID\<close>, \<^verbatim>\<open>Customer\<close> and \<^verbatim>\<open>Total\<close> lines and a
  separator of 50 \<^verbatim>\<open>-\<close>; then the \<^verbatim>\<open>GRAND TOTAL\<close> line, a banner and the \<^verbatim>\<open>Execution time\<close>
  line. A finite total whose rounded decimal is \<open>m\<close> hundredths is printed as an optional
  minus sign, the decimal digits of \<open>m div 100\<close> grouped by thousands, a point and exactly
  two digits, which read \<open>m mod 100\<close>; a finite time whose rounded decimal is \<open>m\<close>
  ten-thousandths as an optional minus sign, the digits of \<open>m div 10000\<close>, a point and
  exactly four digits. A total that is an infinity or a NaN is printed as \<^verbatim>\<open>inf\<close>, \<^verbatim>\<open>-inf\<close> or
  \<^verbatim>\<open>nan\<close>.
\<close>

theorem format_output_layout:
  "format_output ops results grand_total elapsed_time =
     concat (map (\<lambda>line. line @ [CHR 0x0A])
       ([replicate 50 (CHR ''=''), ''           SALES RESULTS REPORT'', replicate 50 (CHR ''='')]
        @ concat (map (\<lambda>r. [''Sale ID  : '' @ py_str ops (sale_id r),
                             ''Customer : '' @ py_str ops (customer r),
                             ''Total    : $'' @ format_f ops True 2 (total r),
                             replicate 50 (CHR ''-'')]) results)
        @ [''GRAND TOTAL: $'' @ format_f ops True 2 grand_total, replicate 50 (CHR ''='')]))
     @ ''Execution time: '' @ format_f ops False 4 elapsed_time @ '' seconds''
   \<and> last (format_output ops results grand_total elapsed_time) = CHR ''s''
   \<and> (\<forall>x neg m. f_decimal ops 2 x = Finite neg m \<longrightarrow>
         format_f ops True 2 x
           = (if neg then ''-'' else []) @ thousands (show_nat (m div 100)) @ ''.''
             @ [digit (m div 10 mod 10), digit (m mod 10)]
         \<and> grouped_by_thousands (thousands (show_nat (m div 100)))
         \<and> decimal_value (filter is_digit (thousands (show_nat (m div 100)))) = m div 100
         \<and> is_digit (digit (m div 10 mod 10)) \<and> is_digit (digit (m mod 10))
         \<and> decimal_value [digit (m div 10 mod 10), digit (m mod 10)] = m mod 100)
   \<and> (\<forall>x neg m. f_decimal ops 4 x = Finite neg m \<longrightarrow>
         format_f ops False 4 x
           = (if neg then ''-'' else []) @ show_nat (m div 10000) @ ''.''
             @ [digit (m div 1000 mod 10), digit (m div 100 mod 10), digit (m div 10 mod 10),
                digit (m mod 10)]
         \<and> list_all is_digit (show_nat (m div 10000))
         \<and> decimal_value (show_nat (m div 10000)) = m div 10000
         \<and> list_all is_digit [digit (m div 1000 mod 10), digit (m div 100 mod 10),
                               digit (m div 10 mod 10), digit (m mod 10)]
         \<and> decimal_value [digit (m div 1000 mod 10), digit (m div 100 mod 10),
                           digit (m div 10 mod 10), digit (m mod 10)] = m mod 10000)
   \<and> (\<forall>x neg. f_decimal ops 2 x = Infinite neg \<longrightarrow>
         format_f ops True 2 x = (if neg then ''-inf'' else ''inf''))
   \<and> (\<forall>x. f_decimal ops 2 x = Not_a_number \<longrightarrow> format_f ops True 2 x = ''nan'')"
proof -
  have block: "result_block ops = (\<lambda>r. [''Sale ID  : '' @ py_str ops (sale_id r),
                             ''Customer : '' @ py_str ops (customer r),
                             ''Total    : $'' @ format_f ops True 2 (total r),
                             replicate 50 (CHR ''-'')])"
    by (rule ext) (simp add: result_block_def)
  note a = format_output_eq[of ops results grand_total elapsed_time, unfolded block]
  have b: "last (format_output ops results grand_total elapsed_time) = CHR ''s''"
    unfolding a by simp
  have c: "format_f ops True 2 x
           = (if neg then ''-'' else []) @ thousands (show_nat (m div 100)) @ ''.''
             @ [digit (m div 10 mod 10), digit (m mod 10)]
         \<and> grouped_by_thousands (thousands (show_nat (m div 100)))
         \<and> decimal_value (filter is_digit (thousands (show_nat (m div 100)))) = m div 100
         \<and> is_digit (digit (m div 10 mod 10)) \<and> is_digit (digit (m mod 10))
         \<and> decimal_value [digit (m div 10 mod 10), digit (m mod 10)] = m mod 100"
    if "f_decimal ops 2 x = Finite neg m" for x neg m
  proof -
    have 1: "format_f ops True 2 x
           = (if neg then ''-'' else []) @ thousands (show_nat (m div 100)) @ ''.''
             @ [digit (m div 10 mod 10), digit (m mod 10)]"
      unfolding format_f_def that by (rule py_fixed_2)
    have 2: "grouped_by_thousands (thousands (show_nat (m div 100)))"
      using show_nat_digits show_nat_nonempty by (rule thousands_grouped)
    have 3: "decimal_value (filter is_digit (thousands (show_nat (m div 100)))) = m div 100"
      unfolding thousands_filter[OF show_nat_digits] by (rule decimal_value_show_nat)
    have 4: "is_digit (digit (m div 10 mod 10))" "is_digit (digit (m mod 10))"
      by (rule digit_is_digit, simp)+
    have 5: "decimal_value [digit (m div 10 mod 10), digit (m mod 10)] = m mod 100"
      unfolding cents_value[symmetric] by (rule decimal_value_2) simp_all
    show ?thesis using 1 2 3 4 5 by blast
  qed
  have d: "format_f ops False 4 x
           = (if neg then ''-'' else []) @ show_nat (m div 10000) @ ''.''
             @ [digit (m div 1000 mod 10), digit (m div 100 mod 10), digit (m div 10 mod 10),
                digit (m mod 10)]
         \<and> list_all is_digit (show_nat (m div 10000))
         \<and> decimal_value (show_nat (m div 10000)) = m div 10000
         \<and> list_all is_digit [digit (m div 1000 mod 10), digit (m div 100 mod 10),
                               digit (m div 10 mod 10), digit (m mod 10)]
         \<and> decimal_value [digit (m div 1000 mod 10), digit (m div 100 mod 10),
                           digit (m div 10 mod 10), digit (m mod 10)] = m mod 10000"
    if "f_decimal ops 4 x = Finite neg m" for x neg m
  proof -
    have 1: "format_f ops False 4 x
           = (if neg then ''-'' else []) @ show_nat (m div 10000) @ ''.''
             @ [digit (m div 1000 mod 10), digit (m div 100 mod 10), digit (m div 10 mod 10),
                digit (m mod 10)]"
      unfolding format_f_def that by (rule py_fixed_4)
    have 2: "list_all is_digit [digit (m div 1000 mod 10), digit (m div 100 mod 10),
                               digit (m div 10 mod 10), digit (m mod 10)]"
      by (simp add: digit_is_digit)
    have 3: "decimal_value [digit (m div 1000 mod 10), digit (m div 100 mod 10),
                           digit (m div 10 mod 10), digit (m mod 10)] = m mod 10000"
      unfolding ten_thousandths_value[symmetric] by (rule decimal_value_4) simp_all
    show ?thesis using 1 2 3 show_nat_digits decimal_value_show_nat by blast
  qed
  have e: "format_f ops True 2 x = (if neg then ''-inf'' else ''inf'')"
    if "f_decimal ops 2 x = Infinite neg" for x neg
    unfolding format_f_def that by simp
  have f: "format_f ops True 2 x = ''nan''" if "f_decimal ops 2 x = Not_a_number" for x
    unfolding format_f_def that by simp
  show ?thesis using a b c d e f by blast
qed

theorem format_output_layout_witness:
  "format_output exact_ops
      [\<lparr>sale_id = JStr ''S1'', customer = JStr ''Bob'', total = 2469 / 2\<rparr>] (2469 / 2) (1 / 8)
    = replicate 50 (CHR ''='') @ [CHR 0x0A]
      @ ''           SALES RESULTS REPORT'' @ [CHR 0x0A]
      @ replicate 50 (CHR ''='') @ [CHR 0x0A]
      @ ''Sale ID  : S1'' @ [CHR 0x0A]
      @ ''Customer : Bob'' @ [CHR 0x0A]
      @ ''Total    : $1,234.50'' @ [CHR 0x0A]
      @ replicate 50 (CHR ''-'') @ [CHR 0x0A]
      @ ''GRAND TOTAL: $1,234.50'' @ [CHR 0x0A]
      @ replicate 50 (CHR ''='') @ [CHR 0x0A]
      @ ''Execution time: 0.1250 seconds''
   \<and> f_decimal exact_ops 2 (2469 / 2) = Finite False 123450
   \<and> format_f exact_ops True 2 (2469 / 2) = ''1,234.50''
   \<and> grouped_by_thousands ''1,234''
   \<and> decimal_value ''1234'' = 1234
   \<and> decimal_value ''50'' = 50
   \<and> f_decimal exact_ops 4 (1 / 8) = Finite False 1250
   \<and> format_f exact_ops False 4 (1 / 8) = ''0.1250''
   \<and> decimal_value ''1250'' = 1250
   \<and> f_decimal extended_ops 2 (Finf True) = Infinite True
   \<and> format_f extended_ops True 2 (Finf True) = ''-inf''
   \<and> f_decimal extended_ops 2 Fnan = Not_a_number
   \<and> format_f extended_ops True 2 Fnan = ''nan''"
proof -
  have d2: "f_decimal exact_ops 2 (2469 / 2) = Finite False 123450"
    by (simp add: exact_ops_def round_half_even_def Let_def)
  have d4: "f_decimal exact_ops 4 (1 / 8) = Finite False 1250"
    by (simp add: exact_ops_def round_half_even_def Let_def)
  have i2: "f_decimal extended_ops 2 (Finf True) = Infinite True"
    by (simp add: extended_ops_def)
  have n2: "f_decimal extended_ops 2 Fnan = Not_a_number"
    by (simp add: extended_ops_def)
  have w: "show_nat 1234 = ''1234''" "show_nat 0 = ''0''"
    by (simp_all add: show_nat.simps digit_def)
  have t: "thousands ''1234'' = ''1,234''"
    by (simp add: thousands_def)
  have g: "(123450::nat) div 100 = 1234" "(123450::nat) div 10 mod 10 = 5" "(123450::nat) mod 10 = 0"
    "(123450::nat) mod 100 = 50"
    "(1250::nat) div 10000 = 0" "(1250::nat) div 1000 mod 10 = 1" "(1250::nat) div 100 mod 10 = 2"
    "(1250::nat) div 10 mod 10 = 5" "(1250::nat) mod 10 = 0" "(1250::nat) mod 10000 = 1250"
    by simp_all
  have dg: "digit 0 = CHR ''0''" "digit 1 = CHR ''1''" "digit 2 = CHR ''2''" "digit 5 = CHR ''5''"
    by (simp_all add: digit_def)
  have fl: "filter is_digit ''1,234'' = ''1234''"
    by (simp add: is_digit_def)
  note layout = format_output_layout[of exact_ops
        "[\<lparr>sale_id = JStr ''S1'', customer = JStr ''Bob'', total = 2469 / 2\<rparr>]" "2469 / 2" "1 / 8"]
  note two = layout[THEN conjunct2, THEN conjunct2, THEN conjunct1, rule_format, OF d2,
      unfolded g w t dg fl]
  note four = layout[THEN conjunct2, THEN conjunct2, THEN conjunct2, THEN conjunct1, rule_format,
      OF d4, unfolded g w dg]
  note ext = format_output_layout[of extended_ops "[]" "Fnum 0" "Fnum 0"]
  note inf = ext[THEN conjunct2, THEN conjunct2, THEN conjunct2, THEN conjunct2, THEN conjunct1,
      rule_format, OF i2]
  note nan = ext[THEN conjunct2, THEN conjunct2, THEN conjunct2, THEN conjunct2, THEN conjunct2,
      rule_format, OF n2]
  have f1: "format_f exact_ops True 2 (2469 / 2) = ''1,234.50''"
    using two by simp
  have f2: "format_f exact_ops False 4 (1 / 8) = ''0.1250''"
    using four by simp
  have out: "format_output exact_ops
      [\<lparr>sale_id = JStr ''S1'', customer = JStr ''Bob'', total = 2469 / 2\<rparr>] (2469 / 2) (1 / 8)
    = replicate 50 (CHR ''='') @ [CHR 0x0A]
      @ ''           SALES RESULTS REPORT'' @ [CHR 0x0A]
      @ replicate 50 (CHR ''='') @ [CHR 0x0A]
      @ ''Sale ID  : S1'' @ [CHR 0x0A]
      @ ''Customer : Bob'' @ [CHR 0x0A]
      @ ''Total    : $1,234.50'' @ [CHR 0x0A]
      @ replicate 50 (CHR ''-'') @ [CHR 0x0A]
      @ ''GRAND TOTAL: $1,234.50'' @ [CHR 0x0A]
      @ replicate 50 (CHR ''='') @ [CHR 0x0A]
      @ ''Execution time: 0.1250 seconds''"
    unfolding layout[THEN conjunct1] by (simp add: f1 f2)
  show ?thesis
    using out d2 f1 two d4 f2 four i2 inf n2 nan by simp
qed

text \<open>
  The claim as it was stated fails for a total that is not finite. \<^verbatim>\<open>json.load\<close> reads the
  price \<^verbatim>\<open>Infinity\<close> as a float, \<^verbatim>\<open>build_price_map\<close> stores it, \<^verbatim>\<open>compute_sales\<close> returns the
  total \<^verbatim>\<open>inf\<close> for a sale of the product, and the report prints \<^verbatim>\<open>$inf\<close>, which has neither
  digits nor a decimal point.
\<close>

theorem format_output_infinite_counterexample:
  "build_price_map extended_ops
       (JList [JObj [(''title'', JStr ''Gold''), (''price'', JFloat (Finf False))]])
     = Inr ([KStr ''Gold'' \<mapsto> PFloat (Finf False)], [])
   \<and> compute_sales extended_ops
       (JList [JObj [(''SALE_ID'', JInt 1), (''Customer'', JStr ''Ana''),
                     (''Items'', JList [JObj [(''Product'', JStr ''Gold''), (''Quantity'', JInt 1)]])]])
       [KStr ''Gold'' \<mapsto> PFloat (Finf False)]
     = Inr (([\<lparr>sale_id = JInt 1, customer = JStr ''Ana'', total = Finf False\<rparr>], Finf False), [])
   \<and> format_output extended_ops
       [\<lparr>sale_id = JInt 1, customer = JStr ''Ana'', total = Finf False\<rparr>] (Finf False) (Fnum 0)
     = replicate 50 (CHR ''='') @ [CHR 0x0A]
       @ ''           SALES RESULTS REPORT'' @ [CHR 0x0A]
       @ replicate 50 (CHR ''='') @ [CHR 0x0A]
       @ ''Sale ID  : 1'' @ [CHR 0x0A]
       @ ''Customer : Ana'' @ [CHR 0x0A]
       @ ''Total    : $inf'' @ [CHR 0x0A]
       @ replicate 50 (CHR ''-'') @ [CHR 0x0A]
       @ ''GRAND TOTAL: $inf'' @ [CHR 0x0A]
       @ replicate 50 (CHR ''='') @ [CHR 0x0A]
       @ ''Execution time: 0.0000 seconds''
   \<and> CHR ''.'' \<notin> set (format_f extended_ops True 2 (Finf False))
   \<and> \<not> list_ex is_digit (format_f extended_ops True 2 (Finf False))"
proof -
  have a: "build_price_map extended_ops
       (JList [JObj [(''title'', JStr ''Gold''), (''price'', JFloat (Finf False))]])
     = Inr ([KStr ''Gold'' \<mapsto> PFloat (Finf False)], [])"
    by (simp add: eval_defs extended_ops_def)
  have b: "compute_sales extended_ops
       (JList [JObj [(''SALE_ID'', JInt 1), (''Customer'', JStr ''Ana''),
                     (''Items'', JList [JObj [(''Product'', JStr ''Gold''), (''Quantity'', JInt 1)]])]])
       [KStr ''Gold'' \<mapsto> PFloat (Finf False)]
     = Inr (([\<lparr>sale_id = JInt 1, customer = JStr ''Ana'', total = Finf False\<rparr>], Finf False), [])"
    by (simp add: eval_defs extended_ops_def)
  have f: "format_f extended_ops True 2 (Finf False) = ''inf''"
    by (simp add: format_f_def extended_ops_def)
  have z: "format_f extended_ops False 4 (Fnum 0) = ''0.0000''"
    by (simp add: format_f_def extended_ops_def round_half_even_def Let_def show_nat.simps digit_def
        numeral_3_eq_3)
  have s: "show_int 1 = ''1''"
    by (simp add: show_int_def show_nat.simps digit_def)
  have c: "format_output extended_ops
       [\<lparr>sale_id = JInt 1, customer = JStr ''Ana'', total = Finf False\<rparr>] (Finf False) (Fnum 0)
     = replicate 50 (CHR ''='') @ [CHR 0x0A]
       @ ''           SALES RESULTS REPORT'' @ [CHR 0x0A]
       @ replicate 50 (CHR ''='') @ [CHR 0x0A]
       @ ''Sale ID  : 1'' @ [CHR 0x0A]
       @ ''Customer : Ana'' @ [CHR 0x0A]
       @ ''Total    : $inf'' @ [CHR 0x0A]
       @ replicate 50 (CHR ''-'') @ [CHR 0x0A]
       @ ''GRAND TOTAL: $inf'' @ [CHR 0x0A]
       @ replicate 50 (CHR ''='') @ [CHR 0x0A]
       @ ''Execution time: 0.0000 seconds''"
    unfolding format_output_def report_lines_def append_result_def newline_def Let_def
    by (simp add: f z s)
  have d: "CHR ''.'' \<notin> set (format_f extended_ops True 2 (Finf False))"
    "\<not> list_ex is_digit (format_f extended_ops True 2 (Finf False))"
    unfolding f by (simp_all add: is_digit_def)
  show ?thesis using a b c d by blast
qed


text \<open>
  C9. The title line is the second line of the report. Its text has 11 blanks before it and
  19 columns of room after it in the 50 columns of the banner: it is not centred, which
  takes 15 blanks.
\<close>

theorem title_line_not_centered:
  "report_lines ops results grand_total elapsed_time ! 1 = replicate 11 (CHR '' '') @ ''SALES RESULTS REPORT''
   \<and> left_margin (report_lines ops results grand_total elapsed_time ! 1) = 11
   \<and> right_margin 50 (report_lines ops results grand_total elapsed_time ! 1) = 19
   \<and> \<not> centered 50 (report_lines ops results grand_total elapsed_time ! 1)
   \<and> centered 50 (replicate 15 (CHR '' '') @ ''SALES RESULTS REPORT'')"
proof -
  have line: "report_lines ops results grand_total elapsed_time ! 1 = ''           SALES RESULTS REPORT''"
    by (simp add: report_lines_eq)
  have rep: "replicate 11 (CHR '' '') @ ''SALES RESULTS REPORT'' = ''           SALES RESULTS REPORT''"
    by (simp add: numeral_eq_Suc)
  have l: "left_margin ''           SALES RESULTS REPORT'' = 11"
    by (simp add: left_margin_def lstrip_def)
  have r: "right_margin 50 ''           SALES RESULTS REPORT'' = 19"
    by (simp add: right_margin_def rstrip_def lstrip_def)
  have n: "\<not> centered 50 ''           SALES RESULTS REPORT''"
    unfolding centered_def l r by simp
  have c: "centered 50 (replicate 15 (CHR '' '') @ ''SALES RESULTS REPORT'')"
    by (simp add: centered_def left_margin_def right_margin_def rstrip_def lstrip_def numeral_eq_Suc)
  show ?thesis unfolding line using rep l r n c by simp
qed

end
